theory Spec2Isabelle
  imports Complex_Main
begin

section \<open>The host audio stack\<close>

text \<open>
  The audio graph lifecycle manager \<open>useAudioGraph\<close> only configures and wires nodes that
  the host audio stack creates. The host is modelled as an explicit store: audio nodes live
  in a heap (a list indexed by node identity), connections are a list of directed edges, and
  the module-level variables \<open>GLOBAL_AUDIO_CTX\<close> and \<open>MEDIA_SRC\<close> are fields of the
  process-wide environment. Numbers are reals: the graph code only copies parameter values,
  it performs no arithmetic on them.
\<close>

type_synonym node_id = nat
type_synonym elem = nat

datatype ctx_state = Suspended | Running | Closed

datatype audio_node =
    AudioDestinationNode
  | MediaElementAudioSourceNode elem
  | GainNode real
  | BiquadFilterNode string real real real
  | AnalyserNode real real

text \<open>
  \<open>GainNode v\<close> carries \<open>gain.value\<close>; \<open>BiquadFilterNode t f q g\<close> carries \<open>type\<close>,
  \<open>frequency.value\<close>, \<open>Q.value\<close> and \<open>gain.value\<close>; \<open>AnalyserNode n s\<close> carries
  \<open>fftSize\<close> and \<open>smoothingTimeConstant\<close>.
\<close>

datatype error = ContextUnavailable | InvalidStateError | ResumeRejected | NullReference

record audio_ctx =
  ident :: nat
  state :: ctx_state
  destination :: node_id

datatype host_audio = NoAudioContext | StartsSuspended | StartsRunning

record env =
  host :: host_audio
  contexts_created :: nat
  GLOBAL_AUDIO_CTX :: "audio_ctx option"
  MEDIA_SRC :: "elem \<Rightarrow> node_id option"
  heap :: "audio_node list"
  edges :: "(node_id \<times> node_id) list"

text \<open>
  \<open>host\<close> is the host's answer to \<open>new (window.AudioContext || webkitAudioContext)()\<close>:
  with \<open>NoAudioContext\<close> neither constructor exists and the call throws; otherwise a new
  context is produced, suspended or running as the host's start policy decides.
\<close>

definition initial_state :: "host_audio \<Rightarrow> ctx_state option" where
  "initial_state h =
     (case h of
        NoAudioContext \<Rightarrow> None
      | StartsSuspended \<Rightarrow> Some Suspended
      | StartsRunning \<Rightarrow> Some Running)"

definition alloc :: "audio_node \<Rightarrow> env \<Rightarrow> node_id \<times> env" where
  "alloc n e = (length (heap e), e\<lparr>heap := heap e @ [n]\<rparr>)"

definition new_AudioContext :: "env \<Rightarrow> error + (audio_ctx \<times> env)" where
  "new_AudioContext e =
     (case initial_state (host e) of
        None \<Rightarrow> Inl ContextUnavailable
      | Some s \<Rightarrow>
          (case alloc AudioDestinationNode e of
             (d, e1) \<Rightarrow>
               Inr (\<lparr>ident = contexts_created e1, state = s, destination = d\<rparr>,
                    e1\<lparr>contexts_created := Suc (contexts_created e1)\<rparr>)))"

text \<open>
  The host refuses a second source node for a media element that already has one
  (\<open>InvalidStateError\<close>).
\<close>

definition createMediaElementSource :: "elem \<Rightarrow> env \<Rightarrow> error + (node_id \<times> env)" where
  "createMediaElementSource el e =
     (if MediaElementAudioSourceNode el \<in> set (heap e) then Inl InvalidStateError
      else Inr (alloc (MediaElementAudioSourceNode el) e))"

definition createGain :: "env \<Rightarrow> node_id \<times> env" where
  "createGain e = alloc (GainNode 1) e"

definition createBiquadFilter :: "env \<Rightarrow> node_id \<times> env" where
  "createBiquadFilter e = alloc (BiquadFilterNode ''lowpass'' 350 1 0) e"

definition createAnalyser :: "env \<Rightarrow> node_id \<times> env" where
  "createAnalyser e = alloc (AnalyserNode 2048 0.8) e"

fun with_gain :: "real \<Rightarrow> audio_node \<Rightarrow> audio_node" where
  "with_gain v (GainNode _) = GainNode v"
| "with_gain v (BiquadFilterNode t f q _) = BiquadFilterNode t f q v"
| "with_gain v n = n"

fun with_type :: "string \<Rightarrow> audio_node \<Rightarrow> audio_node" where
  "with_type t (BiquadFilterNode _ f q g) = BiquadFilterNode t f q g"
| "with_type t n = n"

fun with_frequency :: "real \<Rightarrow> audio_node \<Rightarrow> audio_node" where
  "with_frequency f (BiquadFilterNode t _ q g) = BiquadFilterNode t f q g"
| "with_frequency f n = n"

fun with_Q :: "real \<Rightarrow> audio_node \<Rightarrow> audio_node" where
  "with_Q q (BiquadFilterNode t f _ g) = BiquadFilterNode t f q g"
| "with_Q q n = n"

fun with_fftSize :: "real \<Rightarrow> audio_node \<Rightarrow> audio_node" where
  "with_fftSize n (AnalyserNode _ s) = AnalyserNode n s"
| "with_fftSize n x = x"

fun with_smoothing :: "real \<Rightarrow> audio_node \<Rightarrow> audio_node" where
  "with_smoothing s (AnalyserNode n _) = AnalyserNode n s"
| "with_smoothing s x = x"

definition modify :: "node_id \<Rightarrow> (audio_node \<Rightarrow> audio_node) \<Rightarrow> env \<Rightarrow> env" where
  "modify n f e = (if n < length (heap e) then e\<lparr>heap := (heap e)[n := f (heap e ! n)]\<rparr> else e)"

definition set_gain_value :: "node_id \<Rightarrow> real \<Rightarrow> env \<Rightarrow> env" where
  "set_gain_value n v = modify n (with_gain v)"

definition set_type :: "node_id \<Rightarrow> string \<Rightarrow> env \<Rightarrow> env" where
  "set_type n t = modify n (with_type t)"

definition set_frequency_value :: "node_id \<Rightarrow> real \<Rightarrow> env \<Rightarrow> env" where
  "set_frequency_value n f = modify n (with_frequency f)"

definition set_Q_value :: "node_id \<Rightarrow> real \<Rightarrow> env \<Rightarrow> env" where
  "set_Q_value n q = modify n (with_Q q)"

definition set_fftSize :: "node_id \<Rightarrow> real \<Rightarrow> env \<Rightarrow> env" where
  "set_fftSize n v = modify n (with_fftSize v)"

definition set_smoothingTimeConstant :: "node_id \<Rightarrow> real \<Rightarrow> env \<Rightarrow> env" where
  "set_smoothingTimeConstant n v = modify n (with_smoothing v)"

text \<open>
  Connections are kept as a list, so that a connection made twice would show up twice.
  \<open>disconnect\<close> without arguments removes every outgoing connection of the node and is a
  no-op on a node without any.
\<close>

definition connect :: "node_id \<Rightarrow> node_id \<Rightarrow> env \<Rightarrow> env" where
  "connect a b e = e\<lparr>edges := edges e @ [(a, b)]\<rparr>"

definition disconnect :: "node_id \<Rightarrow> env \<Rightarrow> env" where
  "disconnect a e = e\<lparr>edges := filter (\<lambda>p. fst p \<noteq> a) (edges e)\<rparr>"

definition out_edges :: "env \<Rightarrow> node_id \<Rightarrow> (node_id \<times> node_id) list" where
  "out_edges e a = filter (\<lambda>p. fst p = a) (edges e)"

section \<open>The graph manager: \<open>useAudioGraph\<close>\<close>

definition EQ_FREQUENCIES :: "real list" where
  "EQ_FREQUENCIES =
     [20, 25, 31.5, 40, 50, 63, 80, 100, 125, 160, 200, 250, 315, 400, 500, 630,
      800, 1000, 1250, 1600, 2000, 2500, 3150, 4000, 5000, 6300, 8000, 10000, 12500,
      16000, 20000]"

text \<open>
  An entry of \<open>eqGains\<close> is \<open>None\<close> where the JavaScript array has a hole (\<open>undefined\<close>).
\<close>

record GraphOptions =
  fftSize :: real
  smoothing :: real
  volume :: real
  eqGains :: "real option list"
  eqPreGain :: real

record manager =
  audioRef :: "elem option"
  audioCtxRef :: "nat option"
  srcNodeRef :: "node_id option"
  gainRef :: "node_id option"
  preGainRef :: "node_id option"
  eqNodesRef :: "node_id list"
  analyserRef :: "node_id option"

text \<open>\<open>eqGains[i] ?? 0\<close>: an index out of range and a hole both read as \<open>undefined\<close>.\<close>

definition gain_or_zero :: "real option list \<Rightarrow> nat \<Rightarrow> real" where
  "gain_or_zero gs i = (if i < length gs then (case gs ! i of Some v \<Rightarrow> v | None \<Rightarrow> 0) else 0)"

datatype outcome = Fulfilled | Rejected error | Awaiting elem

text \<open>
  \<open>EQ_FREQUENCIES.map((freq, i) => ...)\<close>: one peaking filter per table entry, in order.
\<close>

fun create_eq_nodes :: "real list \<Rightarrow> nat \<Rightarrow> real option list \<Rightarrow> env \<Rightarrow> node_id list \<times> env" where
  "create_eq_nodes [] i gs e = ([], e)"
| "create_eq_nodes (freq # fs) i gs e =
     (case createBiquadFilter e of
        (eq, e1) \<Rightarrow>
          (case create_eq_nodes fs (Suc i) gs
                  (set_gain_value eq (gain_or_zero gs i)
                    (set_Q_value eq 4.31
                      (set_frequency_value eq freq
                        (set_type eq ''peaking'' e1)))) of
             (eqs, e2) \<Rightarrow> (eq # eqs, e2)))"

text \<open>
  The wiring loop \<open>for (i = 0; i < nodes.length - 1; i++)\<close>: disconnect \<open>nodes[i]\<close>, then
  connect it to \<open>nodes[i + 1]\<close>.
\<close>

fun rewire :: "node_id list \<Rightarrow> env \<Rightarrow> env" where
  "rewire (a # b # rest) e = rewire (b # rest) (connect a b (disconnect a e))"
| "rewire nodes e = e"

definition ensure_src :: "elem \<Rightarrow> env \<Rightarrow> error + (node_id \<times> env)" where
  "ensure_src audioEl e =
     (case MEDIA_SRC e audioEl of
        Some src \<Rightarrow> Inr (src, e)
      | None \<Rightarrow>
          (case createMediaElementSource audioEl e of
             Inl err \<Rightarrow> Inl err
           | Inr (src, e1) \<Rightarrow> Inr (src, e1\<lparr>MEDIA_SRC := (MEDIA_SRC e1)(audioEl \<mapsto> src)\<rparr>)))"

definition ensure_gain :: "GraphOptions \<Rightarrow> env \<times> manager \<Rightarrow> node_id \<times> env \<times> manager" where
  "ensure_gain opts em =
     (case em of (e, m) \<Rightarrow>
        (case gainRef m of
           Some g \<Rightarrow> (g, e, m)
         | None \<Rightarrow>
             (case createGain e of
                (g, e1) \<Rightarrow> (g, set_gain_value g (volume opts) e1, m\<lparr>gainRef := Some g\<rparr>))))"

definition ensure_preGain :: "GraphOptions \<Rightarrow> env \<times> manager \<Rightarrow> node_id \<times> env \<times> manager" where
  "ensure_preGain opts em =
     (case em of (e, m) \<Rightarrow>
        (case preGainRef m of
           Some g \<Rightarrow> (g, e, m)
         | None \<Rightarrow>
             (case createGain e of
                (g, e1) \<Rightarrow> (g, set_gain_value g (eqPreGain opts) e1, m\<lparr>preGainRef := Some g\<rparr>))))"

definition ensure_eqNodes :: "GraphOptions \<Rightarrow> env \<times> manager \<Rightarrow> env \<times> manager" where
  "ensure_eqNodes opts em =
     (case em of (e, m) \<Rightarrow>
        (if length (eqNodesRef m) = 0 then
           (case create_eq_nodes EQ_FREQUENCIES 0 (eqGains opts) e of
              (eqs, e1) \<Rightarrow> (e1, m\<lparr>eqNodesRef := eqs\<rparr>))
         else (e, m)))"

definition ensure_analyser :: "GraphOptions \<Rightarrow> env \<times> manager \<Rightarrow> node_id \<times> env \<times> manager" where
  "ensure_analyser opts em =
     (case em of (e, m) \<Rightarrow>
        (case analyserRef m of
           Some an \<Rightarrow> (an, e, m)
         | None \<Rightarrow>
             (case createAnalyser e of
                (an, e1) \<Rightarrow>
                  (an, set_smoothingTimeConstant an (smoothing opts) (set_fftSize an (fftSize opts) e1),
                   m\<lparr>analyserRef := Some an\<rparr>))))"

text \<open>
  \<open>ensureGraph\<close> has one suspension point, \<open>await GLOBAL_AUDIO_CTX.resume()\<close>, taken only
  when the context is suspended. \<open>ensureGraph_resumed\<close> is the code after that point; it
  runs without interruption. It sees the element and the options captured by the closure
  that started the call, and the refs and module variables as they are when it runs.
\<close>

definition ensureGraph_resumed :: "elem \<Rightarrow> GraphOptions \<Rightarrow> env \<times> manager \<Rightarrow> outcome \<times> env \<times> manager" where
  "ensureGraph_resumed audioEl opts em =
     (case em of (e, m) \<Rightarrow>
        (case GLOBAL_AUDIO_CTX e of
           None \<Rightarrow> (Rejected NullReference, e, m)
         | Some ctx \<Rightarrow>
             (case ensure_src audioEl e of
                Inl err \<Rightarrow> (Rejected err, e, m)
              | Inr (src, e1) \<Rightarrow>
                  (case ensure_gain opts (e1, m\<lparr>srcNodeRef := Some src\<rparr>) of
                     (g, e2, m2) \<Rightarrow>
                  (case ensure_preGain opts (e2, m2) of
                     (pg, e3, m3) \<Rightarrow>
                  (case ensure_eqNodes opts (e3, m3) of
                     (e4, m4) \<Rightarrow>
                  (case ensure_analyser opts (e4, m4) of
                     (an, e5, m5) \<Rightarrow>
                       (Fulfilled,
                        rewire ([g, pg] @ eqNodesRef m5 @ [an, destination ctx])
                          (connect src g (disconnect src e5)),
                        m5))))))))"

definition ensure_context :: "env \<Rightarrow> error + (audio_ctx \<times> env)" where
  "ensure_context e =
     (case GLOBAL_AUDIO_CTX e of
        Some ctx \<Rightarrow> Inr (ctx, e)
      | None \<Rightarrow>
          (case new_AudioContext e of
             Inl err \<Rightarrow> Inl err
           | Inr (ctx, e1) \<Rightarrow> Inr (ctx, e1\<lparr>GLOBAL_AUDIO_CTX := Some ctx\<rparr>)))"

definition ensureGraph :: "GraphOptions \<Rightarrow> env \<times> manager \<Rightarrow> outcome \<times> env \<times> manager" where
  "ensureGraph opts em =
     (case em of (e, m) \<Rightarrow>
        (case audioRef m of
           None \<Rightarrow> (Fulfilled, e, m)
         | Some audioEl \<Rightarrow>
             (case ensure_context e of
                Inl err \<Rightarrow> (Rejected err, e, m)
              | Inr (ctx, e1) \<Rightarrow>
                  (if state ctx = Suspended
                   then (Awaiting audioEl, e1, m\<lparr>audioCtxRef := Some (ident ctx)\<rparr>)
                   else ensureGraph_resumed audioEl opts (e1, m\<lparr>audioCtxRef := Some (ident ctx)\<rparr>)))))"

text \<open>The host completes \<open>resume()\<close>: the context is running when the awaiting call continues.\<close>

definition resume :: "env \<Rightarrow> env" where
  "resume e =
     (case GLOBAL_AUDIO_CTX e of
        None \<Rightarrow> e
      | Some ctx \<Rightarrow> e\<lparr>GLOBAL_AUDIO_CTX := Some (ctx\<lparr>state := Running\<rparr>)\<rparr>)"

text \<open>The reactive updates (\<open>useEffect\<close> bodies), each guarded against a missing node.\<close>

definition effect_volume :: "real \<Rightarrow> env \<times> manager \<Rightarrow> env" where
  "effect_volume v em =
     (case em of (e, m) \<Rightarrow>
        (case gainRef m of None \<Rightarrow> e | Some g \<Rightarrow> set_gain_value g v e))"

definition effect_preGain :: "real \<Rightarrow> env \<times> manager \<Rightarrow> env" where
  "effect_preGain v em =
     (case em of (e, m) \<Rightarrow>
        (case preGainRef m of None \<Rightarrow> e | Some g \<Rightarrow> set_gain_value g v e))"

fun forEach_eq_gain :: "node_id list \<Rightarrow> nat \<Rightarrow> real option list \<Rightarrow> env \<Rightarrow> env" where
  "forEach_eq_gain [] i gs e = e"
| "forEach_eq_gain (eq # eqs) i gs e =
     forEach_eq_gain eqs (Suc i) gs (set_gain_value eq (gain_or_zero gs i) e)"

definition effect_eqGains :: "real option list \<Rightarrow> env \<times> manager \<Rightarrow> env" where
  "effect_eqGains gs em = (case em of (e, m) \<Rightarrow> forEach_eq_gain (eqNodesRef m) 0 gs e)"

definition effect_analyser :: "real \<Rightarrow> real \<Rightarrow> env \<times> manager \<Rightarrow> env" where
  "effect_analyser n s em =
     (case em of (e, m) \<Rightarrow>
        (case analyserRef m of
           None \<Rightarrow> e
         | Some an \<Rightarrow> set_smoothingTimeConstant an s (set_fftSize an n e)))"

text \<open>The unmount cleanup: disconnect this instance's nodes, clear its refs.\<close>

definition disconnect_opt :: "node_id option \<Rightarrow> env \<Rightarrow> env" where
  "disconnect_opt r e = (case r of None \<Rightarrow> e | Some n \<Rightarrow> disconnect n e)"

definition cleanup :: "env \<times> manager \<Rightarrow> env \<times> manager" where
  "cleanup em =
     (case em of (e, m) \<Rightarrow>
        (disconnect_opt (analyserRef m)
           (fold disconnect (eqNodesRef m)
              (disconnect_opt (preGainRef m)
                 (disconnect_opt (gainRef m)
                    (disconnect_opt (srcNodeRef m) e)))),
         m\<lparr>srcNodeRef := None, gainRef := None, preGainRef := None,
            eqNodesRef := [], analyserRef := None\<rparr>))"

text \<open>
  A call that runs alone to its end: when it awaits \<open>resume()\<close>, the host resumes the
  context and the call continues before anything else happens.
\<close>

definition ensureGraph_complete :: "GraphOptions \<Rightarrow> env \<times> manager \<Rightarrow> outcome \<times> env \<times> manager" where
  "ensureGraph_complete opts em =
     (case ensureGraph opts em of
        (Awaiting audioEl, e, m) \<Rightarrow> ensureGraph_resumed audioEl opts (resume e, m)
      | r \<Rightarrow> r)"

section \<open>The caller: \<open>SpectrumPlayer\<close>\<close>

text \<open>
  \<open>SpectrumPlayer\<close> passes an object with six properties to \<open>useAudioGraph\<close>; the hook's
  \<open>GraphOptions\<close> declares and destructures five of them. The caller's object is the
  record extension, and what the hook sees of it is its truncation.
\<close>

record PlayerOptions = GraphOptions +
  isEqEnabled :: bool

record component =
  refs :: manager
  options :: PlayerOptions
  errMsg :: string
  paused :: bool

definition initial_options :: PlayerOptions where
  "initial_options =
     \<lparr>fftSize = 1024, smoothing = 0.7, volume = 0.9,
      eqGains = replicate (length EQ_FREQUENCIES) (Some 0), eqPreGain = 1,
      isEqEnabled = True\<rparr>"

definition initial_refs :: "elem option \<Rightarrow> manager" where
  "initial_refs el =
     \<lparr>audioRef = el, audioCtxRef = None, srcNodeRef = None, gainRef = None,
      preGainRef = None, eqNodesRef = [], analyserRef = None\<rparr>"

definition mount :: "elem option \<Rightarrow> component" where
  "mount el = \<lparr>refs = initial_refs el, options = initial_options, errMsg = [], paused = True\<rparr>"

definition hook_options :: "component \<Rightarrow> GraphOptions" where
  "hook_options c = GraphOptions.truncate (options c)"

text \<open>
  \<open>handleGainChange\<close>: copy the array and assign one index. Assigning beyond the end of a
  JavaScript array extends it, leaving holes.
\<close>

definition handleGainChange :: "nat \<Rightarrow> real \<Rightarrow> real option list \<Rightarrow> real option list" where
  "handleGainChange index v gs =
     (if index < length gs then gs[index := Some v]
      else gs @ replicate (index - length gs) None @ [Some v])"

datatype play_result = PlayOk | PlayRejected string

text \<open>
  \<open>togglePlay\<close>: \<open>await ensureGraph()\<close> stands outside the \<open>try\<close>; only a rejected
  \<open>audio.play()\<close> is caught and written to \<open>errMsg\<close>.
\<close>

definition togglePlay_played :: "play_result \<Rightarrow> component \<Rightarrow> component" where
  "togglePlay_played pr c =
     (if paused c then
        (case pr of
           PlayOk \<Rightarrow> c\<lparr>paused := False\<rparr>
         | PlayRejected msg \<Rightarrow> c\<lparr>errMsg := (if msg = [] then ''Failed to play()'' else msg)\<rparr>)
      else c\<lparr>paused := True\<rparr>)"

definition togglePlay :: "play_result \<Rightarrow> env \<times> component \<Rightarrow> outcome \<times> env \<times> component" where
  "togglePlay pr ec =
     (case ec of (e, c) \<Rightarrow>
        (case audioRef (refs c) of
           None \<Rightarrow> (Fulfilled, e, c)
         | Some audio \<Rightarrow>
             (case ensureGraph_complete (hook_options c) (e, refs c) of
                (Fulfilled, e1, m1) \<Rightarrow> (Fulfilled, e1, togglePlay_played pr (c\<lparr>refs := m1\<rparr>))
              | (out, e1, m1) \<Rightarrow> (out, e1, c\<lparr>refs := m1\<rparr>))))"

section \<open>Schedules: overlapping calls, updates and unmounts\<close>

text \<open>
  Everything runs on one thread. A schedule is a list of events, each of which runs to its
  end: a component mounts, a component calls \<open>ensureGraph\<close> (which either finishes or is
  left pending at its \<open>await\<close>), the host settles a pending \<open>resume()\<close>, a state setter
  fires and its effect runs, a component unmounts, the host suspends the context.
\<close>

record system =
  world :: env
  components :: "component list"
  pending :: "(nat \<times> elem \<times> GraphOptions) list"
  rejections :: "error list"

datatype event =
    Mount "elem option"
  | CallEnsureGraph nat
  | ResumeDone nat
  | ResumeFail nat
  | SetVolume nat real
  | SetEqPreGain nat real
  | HandleGainChange nat nat real
  | SetFftSize nat real
  | SetSmoothing nat real
  | SetIsEqEnabled nat bool
  | Unmount nat
  | HostSuspend

definition start :: "host_audio \<Rightarrow> system" where
  "start h =
     \<lparr>world = \<lparr>host = h, contexts_created = 0, GLOBAL_AUDIO_CTX = None,
               MEDIA_SRC = (\<lambda>el. None), heap = [], edges = []\<rparr>,
      components = [], pending = [], rejections = []\<rparr>"

definition settle :: "nat \<Rightarrow> GraphOptions \<Rightarrow> outcome \<times> env \<times> manager \<Rightarrow> system \<Rightarrow> system" where
  "settle i opts r s =
     (case r of
        (Fulfilled, e, m) \<Rightarrow>
          s\<lparr>world := e, components := (components s)[i := (components s ! i)\<lparr>refs := m\<rparr>]\<rparr>
      | (Rejected err, e, m) \<Rightarrow>
          s\<lparr>world := e, components := (components s)[i := (components s ! i)\<lparr>refs := m\<rparr>],
            rejections := rejections s @ [err]\<rparr>
      | (Awaiting el, e, m) \<Rightarrow>
          s\<lparr>world := e, components := (components s)[i := (components s ! i)\<lparr>refs := m\<rparr>],
            pending := pending s @ [(i, el, opts)]\<rparr>)"

definition update_options :: "nat \<Rightarrow> (PlayerOptions \<Rightarrow> PlayerOptions) \<Rightarrow> system \<Rightarrow> system" where
  "update_options i f s =
     s\<lparr>components := (components s)[i := (components s ! i)\<lparr>options := f (options (components s ! i))\<rparr>]\<rparr>"

text \<open>
  A state setter called with the current value does not re-render, so no effect runs.
  \<open>handleGainChange\<close> always builds a new array, so its effect always runs. The analyser
  effect depends on both \<open>fftSize\<close> and \<open>smoothing\<close> and writes both.
\<close>

definition at_component :: "nat \<Rightarrow> event \<Rightarrow> system \<Rightarrow> system" where
  "at_component i ev s =
     (let c = components s ! i in
      case ev of
        CallEnsureGraph _ \<Rightarrow>
          settle i (hook_options c) (ensureGraph (hook_options c) (world s, refs c)) s
      | SetVolume _ v \<Rightarrow>
          (if volume (options c) = v then s
           else update_options i (\<lambda>p. p\<lparr>volume := v\<rparr>) (s\<lparr>world := effect_volume v (world s, refs c)\<rparr>))
      | SetEqPreGain _ v \<Rightarrow>
          (if eqPreGain (options c) = v then s
           else update_options i (\<lambda>p. p\<lparr>eqPreGain := v\<rparr>) (s\<lparr>world := effect_preGain v (world s, refs c)\<rparr>))
      | HandleGainChange _ index v \<Rightarrow>
          update_options i (\<lambda>p. p\<lparr>eqGains := handleGainChange index v (eqGains p)\<rparr>)
            (s\<lparr>world := effect_eqGains (handleGainChange index v (eqGains (options c))) (world s, refs c)\<rparr>)
      | SetFftSize _ n \<Rightarrow>
          (if fftSize (options c) = n then s
           else update_options i (\<lambda>p. p\<lparr>fftSize := n\<rparr>)
                  (s\<lparr>world := effect_analyser n (smoothing (options c)) (world s, refs c)\<rparr>))
      | SetSmoothing _ x \<Rightarrow>
          (if smoothing (options c) = x then s
           else update_options i (\<lambda>p. p\<lparr>smoothing := x\<rparr>)
                  (s\<lparr>world := effect_analyser (fftSize (options c)) x (world s, refs c)\<rparr>))
      | SetIsEqEnabled _ b \<Rightarrow> update_options i (\<lambda>p. p\<lparr>isEqEnabled := b\<rparr>) s
      | Unmount _ \<Rightarrow>
          (case cleanup (world s, refs c) of
             (e, m) \<Rightarrow> s\<lparr>world := e, components := (components s)[i := c\<lparr>refs := m\<rparr>]\<rparr>)
      | _ \<Rightarrow> s)"

definition drop_pending :: "nat \<Rightarrow> system \<Rightarrow> system" where
  "drop_pending k s = s\<lparr>pending := take k (pending s) @ drop (Suc k) (pending s)\<rparr>"

definition resume_done :: "nat \<Rightarrow> system \<Rightarrow> system" where
  "resume_done k s =
     (if k < length (pending s) then
        (case pending s ! k of
           (i, el, opts) \<Rightarrow>
             settle i opts
               (ensureGraph_resumed el opts (resume (world s), refs (components s ! i)))
               (drop_pending k s))
      else s)"

definition resume_fail :: "nat \<Rightarrow> system \<Rightarrow> system" where
  "resume_fail k s =
     (if k < length (pending s)
      then (drop_pending k s)\<lparr>rejections := rejections s @ [ResumeRejected]\<rparr>
      else s)"

definition host_suspend :: "env \<Rightarrow> env" where
  "host_suspend e =
     (case GLOBAL_AUDIO_CTX e of
        None \<Rightarrow> e
      | Some ctx \<Rightarrow> e\<lparr>GLOBAL_AUDIO_CTX := Some (ctx\<lparr>state := Suspended\<rparr>)\<rparr>)"

definition target :: "event \<Rightarrow> nat option" where
  "target ev =
     (case ev of
        CallEnsureGraph i \<Rightarrow> Some i | SetVolume i _ \<Rightarrow> Some i | SetEqPreGain i _ \<Rightarrow> Some i
      | HandleGainChange i _ _ \<Rightarrow> Some i | SetFftSize i _ \<Rightarrow> Some i | SetSmoothing i _ \<Rightarrow> Some i
      | SetIsEqEnabled i _ \<Rightarrow> Some i | Unmount i \<Rightarrow> Some i | _ \<Rightarrow> None)"

definition step :: "event \<Rightarrow> system \<Rightarrow> system" where
  "step ev s =
     (case ev of
        Mount el \<Rightarrow> s\<lparr>components := components s @ [mount el]\<rparr>
      | ResumeDone k \<Rightarrow> resume_done k s
      | ResumeFail k \<Rightarrow> resume_fail k s
      | HostSuspend \<Rightarrow> s\<lparr>world := host_suspend (world s)\<rparr>
      | _ \<Rightarrow>
          (case target ev of
             Some i \<Rightarrow> (if i < length (components s) then at_component i ev s else s)
           | None \<Rightarrow> s))"

definition run :: "event list \<Rightarrow> system \<Rightarrow> system" where
  "run evs s = fold step evs s"

section \<open>Invariants of the store\<close>

text \<open>
  The part of a node that no setter of the running graph touches: its kind, the element of a
  source node, and the type, centre frequency and quality factor of a filter.
\<close>

datatype static = SDest | SSrc elem | SGain | SBiquad string real real | SAnalyser

fun static_of :: "audio_node \<Rightarrow> static" where
  "static_of AudioDestinationNode = SDest"
| "static_of (MediaElementAudioSourceNode el) = SSrc el"
| "static_of (GainNode v) = SGain"
| "static_of (BiquadFilterNode t f q g) = SBiquad t f q"
| "static_of (AnalyserNode n s) = SAnalyser"

definition statics :: "env \<Rightarrow> static list" where
  "statics e = map static_of (heap e)"

text \<open>\<open>wired e ns\<close>: every node of the chain has exactly one outgoing connection, to its successor.\<close>

fun wired :: "env \<Rightarrow> node_id list \<Rightarrow> bool" where
  "wired e (a # b # rest) = (out_edges e a = [(a, b)] \<and> wired e (b # rest))"
| "wired e ns = True"

text \<open>
  The process-wide state is consistent: the side table \<open>MEDIA_SRC\<close> has an entry for an
  element exactly when the heap holds a source node of that element, there is never more
  than one such node, and the singleton context, once created, is the only one and is open.
\<close>

definition env_ok :: "env \<Rightarrow> bool" where
  "env_ok e \<longleftrightarrow>
     (\<forall>el. count_list (statics e) (SSrc el) = (case MEDIA_SRC e el of None \<Rightarrow> 0 | Some n \<Rightarrow> 1)) \<and>
     (\<forall>el n. MEDIA_SRC e el = Some n \<longrightarrow> n < length (heap e) \<and> statics e ! n = SSrc el) \<and>
     (\<forall>ctx. GLOBAL_AUDIO_CTX e = Some ctx \<longrightarrow>
        destination ctx < length (heap e) \<and> statics e ! destination ctx = SDest \<and>
        ident ctx = 0 \<and> state ctx \<noteq> Closed) \<and>
     contexts_created e = (case GLOBAL_AUDIO_CTX e of None \<Rightarrow> 0 | Some ctx \<Rightarrow> 1)"

text \<open>
  The refs of one hook instance point to live nodes of the right kind, pairwise different,
  and the filter bands are either absent or all there with the table's parameters.
\<close>

definition refs_ok :: "env \<Rightarrow> manager \<Rightarrow> bool" where
  "refs_ok e m \<longleftrightarrow>
     (\<forall>n. srcNodeRef m = Some n \<longrightarrow> n < length (heap e) \<and> (\<exists>el. statics e ! n = SSrc el)) \<and>
     (\<forall>n. gainRef m = Some n \<longrightarrow> n < length (heap e) \<and> statics e ! n = SGain) \<and>
     (\<forall>n. preGainRef m = Some n \<longrightarrow>
        n < length (heap e) \<and> statics e ! n = SGain \<and> gainRef m \<noteq> Some n) \<and>
     (eqNodesRef m = [] \<or> length (eqNodesRef m) = length EQ_FREQUENCIES) \<and>
     distinct (eqNodesRef m) \<and>
     (\<forall>k < length (eqNodesRef m).
        eqNodesRef m ! k < length (heap e) \<and>
        statics e ! (eqNodesRef m ! k) = SBiquad ''peaking'' (EQ_FREQUENCIES ! k) 4.31) \<and>
     (\<forall>n. analyserRef m = Some n \<longrightarrow> n < length (heap e) \<and> statics e ! n = SAnalyser)"

text \<open>\<open>grows e e'\<close>: the heap of \<open>e'\<close> extends that of \<open>e\<close> and the static parts are kept.\<close>

definition grows :: "env \<Rightarrow> env \<Rightarrow> bool" where
  "grows e e' \<longleftrightarrow> (\<exists>zs. statics e' = statics e @ zs)"

text \<open>\<open>allocs e e'\<close>: \<open>e'\<close> differs from \<open>e\<close> by new nodes, none of them a source node.\<close>

definition allocs :: "env \<Rightarrow> env \<Rightarrow> bool" where
  "allocs e e' \<longleftrightarrow>
     (\<exists>zs. heap e' = heap e @ zs \<and> (\<forall>el. MediaElementAudioSourceNode el \<notin> set zs)) \<and>
     MEDIA_SRC e' = MEDIA_SRC e \<and> GLOBAL_AUDIO_CTX e' = GLOBAL_AUDIO_CTX e \<and>
     contexts_created e' = contexts_created e \<and> host e' = host e \<and> edges e' = edges e"

definition sys_ok :: "system \<Rightarrow> bool" where
  "sys_ok s \<longleftrightarrow>
     env_ok (world s) \<and>
     (\<forall>c \<in> set (components s). refs_ok (world s) (refs c)) \<and>
     (pending s \<noteq> [] \<longrightarrow> GLOBAL_AUDIO_CTX (world s) \<noteq> None) \<and>
     (\<forall>p \<in> set (pending s). fst p < length (components s)) \<and>
     set (rejections s) \<subseteq> {ContextUnavailable, ResumeRejected}"

text \<open>The nodes the filter-band creation writes, in order.\<close>

fun eq_band_nodes :: "real list \<Rightarrow> nat \<Rightarrow> real option list \<Rightarrow> audio_node list" where
  "eq_band_nodes [] i gs = []"
| "eq_band_nodes (freq # fs) i gs =
     BiquadFilterNode ''peaking'' freq 4.31 (gain_or_zero gs i) # eq_band_nodes fs (Suc i) gs"

text \<open>The chain of one hook instance, from its source node to the destination.\<close>

definition chain :: "manager \<Rightarrow> node_id \<Rightarrow> node_id list option" where
  "chain m dest =
     (case (srcNodeRef m, gainRef m, preGainRef m, analyserRef m) of
        (Some src, Some g, Some pg, Some an) \<Rightarrow> Some (src # g # pg # eqNodesRef m @ [an, dest])
      | _ \<Rightarrow> None)"

definition cleared :: "manager \<Rightarrow> manager" where
  "cleared m = m\<lparr>srcNodeRef := None, gainRef := None, preGainRef := None,
                  eqNodesRef := [], analyserRef := None\<rparr>"

text \<open>The nodes one hook instance holds a reference to.\<close>

definition own_nodes :: "manager \<Rightarrow> node_id list" where
  "own_nodes m =
     (case srcNodeRef m of None \<Rightarrow> [] | Some n \<Rightarrow> [n]) @
     (case gainRef m of None \<Rightarrow> [] | Some n \<Rightarrow> [n]) @
     (case preGainRef m of None \<Rightarrow> [] | Some n \<Rightarrow> [n]) @
     eqNodesRef m @
     (case analyserRef m of None \<Rightarrow> [] | Some n \<Rightarrow> [n])"

text \<open>
  The graph of one hook instance is wired: all 31 bands are there and the chain
  source, gain, pre-gain, band 0 to band 30, analyser, destination is connected link by
  link, each node having that one outgoing connection only.
\<close>

definition graph_wired :: "env \<Rightarrow> manager \<Rightarrow> bool" where
  "graph_wired e m \<longleftrightarrow>
     (case GLOBAL_AUDIO_CTX e of
        None \<Rightarrow> False
      | Some ctx \<Rightarrow>
          (case chain m (destination ctx) of
             None \<Rightarrow> False
           | Some ns \<Rightarrow> length (eqNodesRef m) = length EQ_FREQUENCIES \<and> wired e ns))"

text \<open>
  Event \<open>ev\<close> brings an \<open>ensureGraph\<close> call of component \<open>i\<close> to its end: either the call
  is made and neither suspends nor throws, or a pending call of that component resumes.
\<close>

definition completes :: "event \<Rightarrow> system \<Rightarrow> nat \<Rightarrow> bool" where
  "completes ev s i \<longleftrightarrow>
     (case ev of
        CallEnsureGraph j \<Rightarrow>
          j = i \<and> i < length (components s) \<and> audioRef (refs (components s ! i)) \<noteq> None \<and>
          pending (step ev s) = pending s \<and> rejections (step ev s) = rejections s
      | ResumeDone k \<Rightarrow> k < length (pending s) \<and> fst (pending s ! k) = i
      | _ \<Rightarrow> False)"

text \<open>The media element an \<open>ensureGraph\<close> call brought to its end by \<open>ev\<close> works on.\<close>

definition call_element :: "event \<Rightarrow> system \<Rightarrow> elem option" where
  "call_element ev s =
     (case ev of
        CallEnsureGraph j \<Rightarrow> audioRef (refs (components s ! j))
      | ResumeDone k \<Rightarrow> Some (fst (snd (pending s ! k)))
      | _ \<Rightarrow> None)"

text \<open>Reading \<open>gain.value\<close> of a node that has a gain parameter.\<close>

fun gain_value_of :: "audio_node \<Rightarrow> real option" where
  "gain_value_of (GainNode v) = Some v"
| "gain_value_of (BiquadFilterNode t f q g) = Some g"
| "gain_value_of n = None"

text \<open>
  \<open>created_by opts (e, m) (e', m')\<close>: from \<open>(e, m)\<close> to \<open>(e', m')\<close> no existing node has
  changed, every ref that was set is kept, and every ref that was empty now points to a node
  that did not exist before and carries the values of \<open>opts\<close>.
\<close>

definition created_by :: "GraphOptions \<Rightarrow> env \<times> manager \<Rightarrow> env \<times> manager \<Rightarrow> bool" where
  "created_by opts em em' \<longleftrightarrow>
     (case (em, em') of ((e, m), (e', m')) \<Rightarrow>
        (\<forall>n < length (heap e). heap e' ! n = heap e ! n) \<and>
        (case gainRef m of
           Some x \<Rightarrow> gainRef m' = Some x
         | None \<Rightarrow> (\<exists>g. gainRef m' = Some g \<and> length (heap e) \<le> g \<and>
                      heap e' ! g = GainNode (volume opts))) \<and>
        (case preGainRef m of
           Some x \<Rightarrow> preGainRef m' = Some x
         | None \<Rightarrow> (\<exists>g. preGainRef m' = Some g \<and> length (heap e) \<le> g \<and>
                      heap e' ! g = GainNode (eqPreGain opts))) \<and>
        (case analyserRef m of
           Some x \<Rightarrow> analyserRef m' = Some x
         | None \<Rightarrow> (\<exists>g. analyserRef m' = Some g \<and> length (heap e) \<le> g \<and>
                      heap e' ! g = AnalyserNode (fftSize opts) (smoothing opts))) \<and>
        (if eqNodesRef m = [] then
           length (eqNodesRef m') = length EQ_FREQUENCIES \<and>
           (\<forall>k < length EQ_FREQUENCIES.
              length (heap e) \<le> eqNodesRef m' ! k \<and>
              heap e' ! (eqNodesRef m' ! k) =
                BiquadFilterNode ''peaking'' (EQ_FREQUENCIES ! k) 4.31 (gain_or_zero (eqGains opts) k))
         else eqNodesRef m' = eqNodesRef m))"

section \<open>Properties of the store operations\<close>

lemma static_with_gain [simp]: "static_of (with_gain v n) = static_of n"
  by (cases n) simp_all

lemma static_with_fftSize [simp]: "static_of (with_fftSize v n) = static_of n"
  by (cases n) simp_all

lemma static_with_smoothing [simp]: "static_of (with_smoothing v n) = static_of n"
  by (cases n) simp_all

lemma statics_modify:
  "(\<And>x. static_of (f x) = static_of x) \<Longrightarrow> statics (modify n f e) = statics e"
  by (simp add: statics_def modify_def map_update list_update_same_conv)

lemma modify_fields [simp]:
  "host (modify n f e) = host e"
  "contexts_created (modify n f e) = contexts_created e"
  "GLOBAL_AUDIO_CTX (modify n f e) = GLOBAL_AUDIO_CTX e"
  "MEDIA_SRC (modify n f e) = MEDIA_SRC e"
  "edges (modify n f e) = edges e"
  "length (heap (modify n f e)) = length (heap e)"
  by (simp_all add: modify_def)

lemma heap_modify:
  "heap (modify n f e) ! k = (if k = n \<and> n < length (heap e) then f (heap e ! n) else heap e ! k)"
  by (simp add: modify_def)

lemmas setter_defs = set_gain_value_def set_type_def set_frequency_value_def set_Q_value_def
  set_fftSize_def set_smoothingTimeConstant_def

lemma set_gain_value_fields [simp]:
  "host (set_gain_value n v e) = host e"
  "contexts_created (set_gain_value n v e) = contexts_created e"
  "GLOBAL_AUDIO_CTX (set_gain_value n v e) = GLOBAL_AUDIO_CTX e"
  "MEDIA_SRC (set_gain_value n v e) = MEDIA_SRC e"
  "edges (set_gain_value n v e) = edges e"
  "length (heap (set_gain_value n v e)) = length (heap e)"
  "statics (set_gain_value n v e) = statics e"
  by (simp_all add: set_gain_value_def statics_modify)

lemma set_fftSize_fields [simp]:
  "host (set_fftSize n v e) = host e"
  "contexts_created (set_fftSize n v e) = contexts_created e"
  "GLOBAL_AUDIO_CTX (set_fftSize n v e) = GLOBAL_AUDIO_CTX e"
  "MEDIA_SRC (set_fftSize n v e) = MEDIA_SRC e"
  "edges (set_fftSize n v e) = edges e"
  "length (heap (set_fftSize n v e)) = length (heap e)"
  "statics (set_fftSize n v e) = statics e"
  by (simp_all add: set_fftSize_def statics_modify)

lemma set_smoothing_fields [simp]:
  "host (set_smoothingTimeConstant n v e) = host e"
  "contexts_created (set_smoothingTimeConstant n v e) = contexts_created e"
  "GLOBAL_AUDIO_CTX (set_smoothingTimeConstant n v e) = GLOBAL_AUDIO_CTX e"
  "MEDIA_SRC (set_smoothingTimeConstant n v e) = MEDIA_SRC e"
  "edges (set_smoothingTimeConstant n v e) = edges e"
  "length (heap (set_smoothingTimeConstant n v e)) = length (heap e)"
  "statics (set_smoothingTimeConstant n v e) = statics e"
  by (simp_all add: set_smoothingTimeConstant_def statics_modify)

lemma connect_fields [simp]:
  "host (connect a b e) = host e"
  "contexts_created (connect a b e) = contexts_created e"
  "GLOBAL_AUDIO_CTX (connect a b e) = GLOBAL_AUDIO_CTX e"
  "MEDIA_SRC (connect a b e) = MEDIA_SRC e"
  "heap (connect a b e) = heap e"
  "statics (connect a b e) = statics e"
  by (simp_all add: connect_def statics_def)

lemma disconnect_fields [simp]:
  "host (disconnect a e) = host e"
  "contexts_created (disconnect a e) = contexts_created e"
  "GLOBAL_AUDIO_CTX (disconnect a e) = GLOBAL_AUDIO_CTX e"
  "MEDIA_SRC (disconnect a e) = MEDIA_SRC e"
  "heap (disconnect a e) = heap e"
  "statics (disconnect a e) = statics e"
  by (simp_all add: disconnect_def statics_def)

lemma out_edges_connect [simp]:
  "out_edges (connect a b e) n = (if n = a then out_edges e n @ [(a, b)] else out_edges e n)"
  by (simp add: out_edges_def connect_def)

lemma out_edges_disconnect [simp]:
  "out_edges (disconnect a e) n = (if n = a then [] else out_edges e n)"
  by (auto simp add: out_edges_def disconnect_def filter_empty_conv intro: filter_cong)

lemma rewire_fields [simp]:
  "host (rewire ns e) = host e"
  "contexts_created (rewire ns e) = contexts_created e"
  "GLOBAL_AUDIO_CTX (rewire ns e) = GLOBAL_AUDIO_CTX e"
  "MEDIA_SRC (rewire ns e) = MEDIA_SRC e"
  "heap (rewire ns e) = heap e"
  "statics (rewire ns e) = statics e"
  by (induction ns e rule: rewire.induct; simp)+

lemma out_edges_rewire_other:
  "n \<notin> set (butlast ns) \<Longrightarrow> out_edges (rewire ns e) n = out_edges e n"
  by (induction ns e rule: rewire.induct) auto

lemma wired_rewire: "distinct ns \<Longrightarrow> wired (rewire ns e) ns"
proof (induction ns e rule: rewire.induct)
  case (1 a b rest e)
  have "a \<notin> set (butlast (b # rest))"
    using 1(2) by (auto dest: in_set_butlastD)
  then have "out_edges (rewire (b # rest) (connect a b (disconnect a e))) a = [(a, b)]"
    by (simp add: out_edges_rewire_other)
  with 1 show ?case by simp
qed simp_all

lemma allocs_refl [simp]: "allocs e e"
  by (simp add: allocs_def)

lemma allocs_trans: "allocs e1 e2 \<Longrightarrow> allocs e2 e3 \<Longrightarrow> allocs e1 e3"
  by (auto simp: allocs_def)

lemma allocs_grows: "allocs e e' \<Longrightarrow> grows e e'"
  by (auto simp: allocs_def grows_def statics_def)

lemma grows_refl [simp]: "grows e e"
  by (simp add: grows_def)

lemma grows_trans: "grows e1 e2 \<Longrightarrow> grows e2 e3 \<Longrightarrow> grows e1 e3"
  by (auto simp: grows_def)

lemma grows_length: "grows e e' \<Longrightarrow> length (heap e) \<le> length (heap e')"
proof -
  assume "grows e e'"
  then obtain zs where "statics e' = statics e @ zs" by (auto simp: grows_def)
  then have "length (statics e') = length (statics e) + length zs" by simp
  then show ?thesis by (simp add: statics_def)
qed

lemma grows_nth: "grows e e' \<Longrightarrow> n < length (heap e) \<Longrightarrow> statics e' ! n = statics e ! n"
  by (auto simp: grows_def statics_def nth_append)

lemma refs_ok_grows:
  assumes "refs_ok e m" "grows e e'"
  shows "refs_ok e' m"
proof -
  have lt: "n < length (heap e) \<Longrightarrow> n < length (heap e')" for n
    using grows_length [OF assms(2)] by simp
  have nth: "n < length (heap e) \<Longrightarrow> statics e' ! n = statics e ! n" for n
    using grows_nth [OF assms(2)] by simp
  show ?thesis
    using assms(1) unfolding refs_ok_def
    by (auto simp: nth intro: lt)
qed

lemma static_src_iff: "static_of x = SSrc el \<longleftrightarrow> x = MediaElementAudioSourceNode el"
  by (cases x) auto

lemma count_statics: "count_list (map static_of xs) (SSrc el) = count_list xs (MediaElementAudioSourceNode el)"
  by (induction xs) (auto simp: static_src_iff)

lemma env_ok_allocs:
  assumes "env_ok e" "allocs e e'"
  shows "env_ok e'"
proof -
  from assms(2) obtain zs where zs: "heap e' = heap e @ zs"
    and nosrc: "\<And>el. MediaElementAudioSourceNode el \<notin> set zs"
    and same: "MEDIA_SRC e' = MEDIA_SRC e" "GLOBAL_AUDIO_CTX e' = GLOBAL_AUDIO_CTX e"
      "contexts_created e' = contexts_created e"
    by (auto simp: allocs_def)
  have st: "statics e' = statics e @ map static_of zs"
    by (simp add: statics_def zs)
  have cnt: "count_list (statics e') (SSrc el) = count_list (statics e) (SSrc el)" for el
    using nosrc [of el] by (simp add: st count_statics count_list_0_iff)
  have nth: "n < length (heap e) \<Longrightarrow> statics e' ! n = statics e ! n" for n
    by (simp add: statics_def zs nth_append)
  have len: "length (heap e) \<le> length (heap e')"
    by (simp add: zs)
  show ?thesis
    unfolding env_ok_def
  proof (intro conjI allI impI)
    fix el
    show "count_list (statics e') (SSrc el) = (case MEDIA_SRC e' el of None \<Rightarrow> 0 | Some n \<Rightarrow> 1)"
      using assms(1) by (simp add: cnt same env_ok_def)
  next
    fix el n
    assume "MEDIA_SRC e' el = Some n"
    then have "n < length (heap e) \<and> statics e ! n = SSrc el"
      using assms(1) by (simp add: same env_ok_def)
    then show "n < length (heap e')" "statics e' ! n = SSrc el"
      using len nth by auto
  next
    fix ctx
    assume "GLOBAL_AUDIO_CTX e' = Some ctx"
    then have *: "destination ctx < length (heap e) \<and> statics e ! destination ctx = SDest \<and>
        ident ctx = 0 \<and> state ctx \<noteq> Closed"
      using assms(1) by (simp add: same env_ok_def)
    then show "destination ctx < length (heap e')" "statics e' ! destination ctx = SDest"
      "ident ctx = 0" "state ctx \<noteq> Closed"
      using len nth by auto
  next
    show "contexts_created e' = (case GLOBAL_AUDIO_CTX e' of None \<Rightarrow> 0 | Some ctx \<Rightarrow> 1)"
      using assms(1) by (simp add: same env_ok_def)
  qed
qed

lemma alloc_eq: "alloc n e = (length (heap e), e\<lparr>heap := heap e @ [n]\<rparr>)"
  by (simp add: alloc_def)

lemma ensure_gain_eq:
  "ensure_gain opts (e, m) =
     (case gainRef m of
        Some g \<Rightarrow> (g, e, m)
      | None \<Rightarrow> (length (heap e), e\<lparr>heap := heap e @ [GainNode (volume opts)]\<rparr>,
                 m\<lparr>gainRef := Some (length (heap e))\<rparr>))"
  by (simp add: ensure_gain_def createGain_def alloc_def set_gain_value_def modify_def
           split: option.splits)

lemma ensure_preGain_eq:
  "ensure_preGain opts (e, m) =
     (case preGainRef m of
        Some g \<Rightarrow> (g, e, m)
      | None \<Rightarrow> (length (heap e), e\<lparr>heap := heap e @ [GainNode (eqPreGain opts)]\<rparr>,
                 m\<lparr>preGainRef := Some (length (heap e))\<rparr>))"
  by (simp add: ensure_preGain_def createGain_def alloc_def set_gain_value_def modify_def
           split: option.splits)

lemma ensure_analyser_eq:
  "ensure_analyser opts (e, m) =
     (case analyserRef m of
        Some an \<Rightarrow> (an, e, m)
      | None \<Rightarrow> (length (heap e),
                 e\<lparr>heap := heap e @ [AnalyserNode (fftSize opts) (smoothing opts)]\<rparr>,
                 m\<lparr>analyserRef := Some (length (heap e))\<rparr>))"
  by (simp add: ensure_analyser_def createAnalyser_def alloc_def set_fftSize_def
           set_smoothingTimeConstant_def modify_def split: option.splits)

lemma upt_add_Suc: "[n ..< Suc (n + k)] = n # [Suc n ..< Suc (n + k)]"
  by (rule upt_conv_Cons) simp

lemma create_eq_nodes_eq:
  "create_eq_nodes fs i gs e =
     ([length (heap e) ..< length (heap e) + length fs], e\<lparr>heap := heap e @ eq_band_nodes fs i gs\<rparr>)"
proof (induction fs arbitrary: i e)
  case Nil
  show ?case by simp
next
  case (Cons f fs)
  show ?case
    by (simp add: Cons createBiquadFilter_def alloc_def setter_defs modify_def upt_add_Suc
             del: upt_Suc)
qed

lemma ensure_eqNodes_eq:
  "ensure_eqNodes opts (e, m) =
     (if eqNodesRef m = [] then
        (e\<lparr>heap := heap e @ eq_band_nodes EQ_FREQUENCIES 0 (eqGains opts)\<rparr>,
         m\<lparr>eqNodesRef := [length (heap e) ..< length (heap e) + length EQ_FREQUENCIES]\<rparr>)
      else (e, m))"
  by (simp add: ensure_eqNodes_def create_eq_nodes_eq)

lemma ensure_src_eq:
  "ensure_src el e =
     (case MEDIA_SRC e el of
        Some src \<Rightarrow> Inr (src, e)
      | None \<Rightarrow>
          (if MediaElementAudioSourceNode el \<in> set (heap e) then Inl InvalidStateError
           else Inr (length (heap e),
                     e\<lparr>heap := heap e @ [MediaElementAudioSourceNode el],
                       MEDIA_SRC := (MEDIA_SRC e)(el \<mapsto> length (heap e))\<rparr>)))"
  by (simp add: ensure_src_def createMediaElementSource_def alloc_def split: option.splits)

lemma length_eq_band_nodes [simp]: "length (eq_band_nodes fs i gs) = length fs"
  by (induction fs arbitrary: i) simp_all

lemma nth_eq_band_nodes:
  "k < length fs \<Longrightarrow>
   eq_band_nodes fs i gs ! k = BiquadFilterNode ''peaking'' (fs ! k) 4.31 (gain_or_zero gs (i + k))"
proof (induction fs arbitrary: i k)
  case Nil
  then show ?case by simp
next
  case (Cons f fs)
  then show ?case by (cases k) simp_all
qed

lemma eq_band_nodes_no_src: "MediaElementAudioSourceNode el \<notin> set (eq_band_nodes fs i gs)"
  by (induction fs arbitrary: i) simp_all

lemma ensure_gain_allocs: "ensure_gain opts (e, m) = (g, e', m') \<Longrightarrow> allocs e e'"
  by (auto simp: ensure_gain_eq allocs_def split: option.splits)

lemma ensure_preGain_allocs: "ensure_preGain opts (e, m) = (g, e', m') \<Longrightarrow> allocs e e'"
  by (auto simp: ensure_preGain_eq allocs_def split: option.splits)

lemma ensure_analyser_allocs: "ensure_analyser opts (e, m) = (g, e', m') \<Longrightarrow> allocs e e'"
  by (auto simp: ensure_analyser_eq allocs_def split: option.splits)

lemma ensure_eqNodes_allocs: "ensure_eqNodes opts (e, m) = (e', m') \<Longrightarrow> allocs e e'"
  by (auto simp: ensure_eqNodes_eq allocs_def eq_band_nodes_no_src split: if_splits)

lemma ensure_gain_refs:
  "ensure_gain opts (e, m) = (g, e', m') \<Longrightarrow> refs_ok e m \<Longrightarrow> refs_ok e' m' \<and> gainRef m' = Some g"
  by (auto simp: ensure_gain_eq refs_ok_def statics_def nth_append split: option.splits)

lemma ensure_preGain_refs:
  "ensure_preGain opts (e, m) = (g, e', m') \<Longrightarrow> refs_ok e m \<Longrightarrow> refs_ok e' m' \<and> preGainRef m' = Some g"
  by (auto simp: ensure_preGain_eq refs_ok_def statics_def nth_append split: option.splits)

lemma ensure_analyser_refs:
  "ensure_analyser opts (e, m) = (g, e', m') \<Longrightarrow> refs_ok e m \<Longrightarrow> refs_ok e' m' \<and> analyserRef m' = Some g"
  by (auto simp: ensure_analyser_eq refs_ok_def statics_def nth_append split: option.splits)

lemma ensure_eqNodes_refs:
  "ensure_eqNodes opts (e, m) = (e', m') \<Longrightarrow> refs_ok e m \<Longrightarrow>
   refs_ok e' m' \<and> length (eqNodesRef m') = length EQ_FREQUENCIES"
  by (auto simp: ensure_eqNodes_eq refs_ok_def statics_def nth_append nth_eq_band_nodes
           split: if_splits)

lemma ensure_gain_manager: "ensure_gain opts (e, m) = (g, e', m') \<Longrightarrow> m' = m\<lparr>gainRef := Some g\<rparr>"
  by (auto simp: ensure_gain_eq split: option.splits)

lemma ensure_preGain_manager:
  "ensure_preGain opts (e, m) = (g, e', m') \<Longrightarrow> m' = m\<lparr>preGainRef := Some g\<rparr>"
  by (auto simp: ensure_preGain_eq split: option.splits)

lemma ensure_analyser_manager:
  "ensure_analyser opts (e, m) = (g, e', m') \<Longrightarrow> m' = m\<lparr>analyserRef := Some g\<rparr>"
  by (auto simp: ensure_analyser_eq split: option.splits)

lemma ensure_eqNodes_manager:
  "ensure_eqNodes opts (e, m) = (e', m') \<Longrightarrow> m' = m\<lparr>eqNodesRef := eqNodesRef m'\<rparr>"
  by (auto simp: ensure_eqNodes_eq split: if_splits)

lemma no_source_node:
  assumes "env_ok e" "MEDIA_SRC e el = None"
  shows "MediaElementAudioSourceNode el \<notin> set (heap e)"
proof -
  have "count_list (statics e) (SSrc el) = 0"
    using assms by (simp add: env_ok_def)
  then have "count_list (heap e) (MediaElementAudioSourceNode el) = 0"
    by (simp add: statics_def count_statics)
  then show ?thesis by (simp add: count_list_0_iff)
qed

lemma env_ok_new_source:
  assumes "env_ok e" "MEDIA_SRC e el = None"
  shows "env_ok (e\<lparr>heap := heap e @ [MediaElementAudioSourceNode el],
                   MEDIA_SRC := (MEDIA_SRC e)(el \<mapsto> length (heap e))\<rparr>)"
    (is "env_ok ?e'")
proof -
  have st: "statics ?e' = statics e @ [SSrc el]"
    by (simp add: statics_def)
  have nth: "n < length (heap e) \<Longrightarrow> statics ?e' ! n = statics e ! n" for n
    by (simp add: st nth_append statics_def)
  have last: "statics ?e' ! length (heap e) = SSrc el"
    by (simp add: statics_def nth_append)
  show ?thesis
    unfolding env_ok_def
  proof (intro conjI allI impI)
    fix el'
    show "count_list (statics ?e') (SSrc el') = (case MEDIA_SRC ?e' el' of None \<Rightarrow> 0 | Some n \<Rightarrow> 1)"
      using assms by (simp add: st env_ok_def)
  next
    fix el' n
    assume a: "MEDIA_SRC ?e' el' = Some n"
    show "n < length (heap ?e')"
      using a assms(1) by (auto simp: env_ok_def less_Suc_eq split: if_splits)
    show "statics ?e' ! n = SSrc el'"
    proof (cases "el' = el")
      case True
      then show ?thesis using a last by simp
    next
      case False
      then have "MEDIA_SRC e el' = Some n" using a by simp
      then have "n < length (heap e) \<and> statics e ! n = SSrc el'"
        using assms(1) by (simp add: env_ok_def)
      then show ?thesis using nth by simp
    qed
  next
    fix ctx
    assume "GLOBAL_AUDIO_CTX ?e' = Some ctx"
    then have "destination ctx < length (heap e) \<and> statics e ! destination ctx = SDest \<and>
        ident ctx = 0 \<and> state ctx \<noteq> Closed"
      using assms(1) by (simp add: env_ok_def)
    then show "destination ctx < length (heap ?e')" "statics ?e' ! destination ctx = SDest"
      "ident ctx = 0" "state ctx \<noteq> Closed"
      using nth by auto
  next
    show "contexts_created ?e' = (case GLOBAL_AUDIO_CTX ?e' of None \<Rightarrow> 0 | Some ctx \<Rightarrow> 1)"
      using assms(1) by (simp add: env_ok_def)
  qed
qed

lemma ensure_src_post:
  assumes "env_ok e"
  shows "\<exists>src e'. ensure_src el e = Inr (src, e') \<and> env_ok e' \<and>
           (\<exists>zs. heap e' = heap e @ zs) \<and>
           MEDIA_SRC e' = (MEDIA_SRC e)(el \<mapsto> src) \<and>
           GLOBAL_AUDIO_CTX e' = GLOBAL_AUDIO_CTX e \<and>
           contexts_created e' = contexts_created e \<and> host e' = host e \<and>
           edges e' = edges e \<and>
           (case MEDIA_SRC e el of Some n \<Rightarrow> src = n \<and> e' = e | None \<Rightarrow> src = length (heap e))"
proof (cases "MEDIA_SRC e el")
  case None
  then show ?thesis
    using no_source_node [OF assms None] env_ok_new_source [OF assms None]
    by (simp add: ensure_src_eq)
next
  case (Some n)
  then have "(MEDIA_SRC e)(el \<mapsto> n) = MEDIA_SRC e" by auto
  then show ?thesis using Some assms by (simp add: ensure_src_eq)
qed

lemma heap_grows: "heap e' = heap e @ zs \<Longrightarrow> grows e e'"
  by (simp add: grows_def statics_def)

lemma chain_distinct:
  assumes "env_ok e" "refs_ok e m" "GLOBAL_AUDIO_CTX e = Some ctx"
    "chain m (destination ctx) = Some ns"
  shows "distinct ns"
proof -
  obtain src g pg an where refs: "srcNodeRef m = Some src" "gainRef m = Some g"
    "preGainRef m = Some pg" "analyserRef m = Some an"
    and ns: "ns = src # g # pg # eqNodesRef m @ [an, destination ctx]"
    using assms(4) by (auto simp: chain_def split: option.splits)
  have dest: "statics e ! destination ctx = SDest"
    using assms(1,3) by (simp add: env_ok_def)
  have src: "\<exists>el. statics e ! src = SSrc el" and g: "statics e ! g = SGain"
    and pg: "statics e ! pg = SGain" "g \<noteq> pg" and an: "statics e ! an = SAnalyser"
    and eqs: "distinct (eqNodesRef m)"
    using assms(2) refs by (auto simp: refs_ok_def)
  have "\<exists>f. statics e ! q = SBiquad ''peaking'' f 4.31" if "q \<in> set (eqNodesRef m)" for q
    using assms(2) that by (auto simp: refs_ok_def in_set_conv_nth)
  then have bq: "\<forall>q \<in> set (eqNodesRef m). statics e ! q \<noteq> SDest \<and> statics e ! q \<noteq> SGain \<and>
      statics e ! q \<noteq> SAnalyser \<and> (\<forall>el. statics e ! q \<noteq> SSrc el)"
    by fastforce
  show ?thesis
    unfolding ns using dest src g pg an eqs bq by auto
qed

lemma wired_chain:
  assumes "distinct (src # ns)" "ns = g # rest"
  shows "wired (rewire ns (connect src g (disconnect src e))) (src # ns)"
proof -
  have "src \<notin> set (butlast ns)"
    using assms(1) by (auto dest: in_set_butlastD)
  then have "out_edges (rewire ns (connect src g (disconnect src e))) src = [(src, g)]"
    by (simp add: out_edges_rewire_other)
  moreover have "wired (rewire ns (connect src g (disconnect src e))) ns"
    using assms(1) by (simp add: wired_rewire)
  ultimately show ?thesis by (simp add: assms(2))
qed

lemma ensureGraph_resumed_post:
  assumes ok: "env_ok e" "refs_ok e m" and ctx: "GLOBAL_AUDIO_CTX e = Some ctx"
    and run: "ensureGraph_resumed el opts (e, m) = (out, e', m')"
  shows "out = Fulfilled \<and> env_ok e' \<and> refs_ok e' m' \<and> (\<exists>zs. heap e' = heap e @ zs) \<and>
         GLOBAL_AUDIO_CTX e' = Some ctx \<and> contexts_created e' = contexts_created e \<and>
         host e' = host e \<and>
         (\<exists>src. MEDIA_SRC e' = (MEDIA_SRC e)(el \<mapsto> src) \<and> srcNodeRef m' = Some src \<and>
            (case MEDIA_SRC e el of Some n \<Rightarrow> src = n | None \<Rightarrow> src = length (heap e))) \<and>
         audioRef m' = audioRef m \<and> audioCtxRef m' = audioCtxRef m \<and>
         length (eqNodesRef m') = length EQ_FREQUENCIES \<and>
         (\<exists>ns. chain m' (destination ctx) = Some ns \<and> wired e' ns)"
proof -
  obtain src e1 where s1: "ensure_src el e = Inr (src, e1)" and ok1: "env_ok e1"
    and h1: "\<exists>zs. heap e1 = heap e @ zs"
    and f1: "MEDIA_SRC e1 = (MEDIA_SRC e)(el \<mapsto> src)" "GLOBAL_AUDIO_CTX e1 = GLOBAL_AUDIO_CTX e"
      "contexts_created e1 = contexts_created e" "host e1 = host e"
    and new1: "case MEDIA_SRC e el of Some n \<Rightarrow> src = n \<and> e1 = e | None \<Rightarrow> src = length (heap e)"
    using ensure_src_post [OF ok(1), of el] by blast
  define m1 where "m1 = m\<lparr>srcNodeRef := Some src\<rparr>"
  have g1: "grows e e1" using h1 by (auto intro: heap_grows)
  have "MEDIA_SRC e1 el = Some src"
    by (simp add: f1(1))
  with ok1 have src1: "src < length (heap e1) \<and> statics e1 ! src = SSrc el"
    unfolding env_ok_def by blast
  have "refs_ok e1 m" using ok(2) g1 by (rule refs_ok_grows)
  then have r1: "refs_ok e1 m1"
    using src1 by (auto simp: refs_ok_def m1_def)
  obtain g e2 m2 where s2: "ensure_gain opts (e1, m1) = (g, e2, m2)"
    by (metis prod_cases3)
  obtain pg e3 m3 where s3: "ensure_preGain opts (e2, m2) = (pg, e3, m3)"
    by (metis prod_cases3)
  obtain e4 m4 where s4: "ensure_eqNodes opts (e3, m3) = (e4, m4)"
    by (metis surj_pair)
  obtain an e5 m5 where s5: "ensure_analyser opts (e4, m4) = (an, e5, m5)"
    by (metis prod_cases3)
  note a2 = ensure_gain_allocs [OF s2] and a3 = ensure_preGain_allocs [OF s3]
    and a4 = ensure_eqNodes_allocs [OF s4] and a5 = ensure_analyser_allocs [OF s5]
  have a15: "allocs e1 e5"
    using a2 a3 a4 a5 by (blast intro: allocs_trans)
  have r2: "refs_ok e2 m2" using ensure_gain_refs [OF s2 r1] by simp
  have r3: "refs_ok e3 m3" using ensure_preGain_refs [OF s3 r2] by simp
  have r4: "refs_ok e4 m4" and len4: "length (eqNodesRef m4) = length EQ_FREQUENCIES"
    using ensure_eqNodes_refs [OF s4 r3] by simp_all
  have r5: "refs_ok e5 m5" using ensure_analyser_refs [OF s5 r4] by simp
  have ok5: "env_ok e5" using ok1 a15 by (rule env_ok_allocs)
  have m2: "m2 = m1\<lparr>gainRef := Some g\<rparr>" using s2 by (rule ensure_gain_manager)
  have m3: "m3 = m2\<lparr>preGainRef := Some pg\<rparr>" using s3 by (rule ensure_preGain_manager)
  have m4: "m4 = m3\<lparr>eqNodesRef := eqNodesRef m4\<rparr>" using s4 by (rule ensure_eqNodes_manager)
  have m5: "m5 = m4\<lparr>analyserRef := Some an\<rparr>" using s5 by (rule ensure_analyser_manager)
  have m5_refs: "srcNodeRef m5 = Some src" "gainRef m5 = Some g" "preGainRef m5 = Some pg"
    "analyserRef m5 = Some an" "audioRef m5 = audioRef m" "audioCtxRef m5 = audioCtxRef m"
    "length (eqNodesRef m5) = length EQ_FREQUENCIES"
    by (subst m5, subst m4, subst m3, subst m2, simp add: m1_def len4 m5 [symmetric])+
  let ?ns = "[g, pg] @ eqNodesRef m5 @ [an, destination ctx]"
  have fin: "out = Fulfilled" "e' = rewire ?ns (connect src g (disconnect src e5))" "m' = m5"
    using run unfolding ensureGraph_resumed_def by (auto simp add: ctx s1 m1_def [symmetric] s2 s3 s4 s5)
  have ctx5: "GLOBAL_AUDIO_CTX e5 = Some ctx"
    using a15 f1(2) ctx by (simp add: allocs_def)
  have ch: "chain m5 (destination ctx) = Some (src # ?ns)"
    by (simp add: chain_def m5_refs)
  have dist: "distinct (src # ?ns)"
    using chain_distinct [OF ok5 r5 ctx5 ch] .
  have w: "wired e' (src # ?ns)"
    unfolding fin(2) using dist by (intro wired_chain) simp_all
  have ok': "env_ok e'"
    using ok5 unfolding fin(2) env_ok_def by simp
  have r': "refs_ok e' m'"
    using r5 unfolding fin(2,3) refs_ok_def by simp
  have h': "\<exists>zs. heap e' = heap e @ zs"
    using h1 a15 unfolding fin(2) by (auto simp: allocs_def)
  have same: "GLOBAL_AUDIO_CTX e' = Some ctx" "contexts_created e' = contexts_created e"
    "host e' = host e" "MEDIA_SRC e' = (MEDIA_SRC e)(el \<mapsto> src)"
    using a15 f1 ctx unfolding fin(2) by (simp_all add: allocs_def)
  have new: "case MEDIA_SRC e el of Some n \<Rightarrow> src = n | None \<Rightarrow> src = length (heap e)"
    using new1 by (simp split: option.splits)
  show ?thesis
    using fin(1) ok' r' h' same new m5_refs ch w unfolding fin(3) by auto
qed

lemma length_statics [simp]: "length (statics e) = length (heap e)"
  by (simp add: statics_def)

lemma statics_update [simp]:
  "statics (e\<lparr>GLOBAL_AUDIO_CTX := c\<rparr>) = statics e"
  "statics (e\<lparr>edges := es\<rparr>) = statics e"
  "statics (e\<lparr>MEDIA_SRC := ms\<rparr>) = statics e"
  "statics (e\<lparr>contexts_created := k\<rparr>) = statics e"
  "statics (e\<lparr>heap := h\<rparr>) = map static_of h"
  by (simp_all add: statics_def)

lemma env_ok_cong:
  assumes "statics e' = statics e" "MEDIA_SRC e' = MEDIA_SRC e"
    "GLOBAL_AUDIO_CTX e' = GLOBAL_AUDIO_CTX e" "contexts_created e' = contexts_created e"
  shows "env_ok e' = env_ok e"
proof -
  have "length (heap e') = length (heap e)"
    using assms(1) by (metis length_statics)
  then show ?thesis
    by (simp add: env_ok_def assms)
qed

lemma refs_ok_cong:
  assumes "statics e' = statics e"
  shows "refs_ok e' m = refs_ok e m"
proof -
  have "length (heap e') = length (heap e)"
    using assms(1) by (metis length_statics)
  then show ?thesis
    by (simp add: refs_ok_def assms)
qed

lemma forEach_eq_gain_fields [simp]:
  "host (forEach_eq_gain ns i gs e) = host e"
  "contexts_created (forEach_eq_gain ns i gs e) = contexts_created e"
  "GLOBAL_AUDIO_CTX (forEach_eq_gain ns i gs e) = GLOBAL_AUDIO_CTX e"
  "MEDIA_SRC (forEach_eq_gain ns i gs e) = MEDIA_SRC e"
  "edges (forEach_eq_gain ns i gs e) = edges e"
  "length (heap (forEach_eq_gain ns i gs e)) = length (heap e)"
  "statics (forEach_eq_gain ns i gs e) = statics e"
  by (induction ns i gs e rule: forEach_eq_gain.induct; simp)+

lemma effect_volume_fields [simp]:
  "host (effect_volume v (e, m)) = host e"
  "contexts_created (effect_volume v (e, m)) = contexts_created e"
  "GLOBAL_AUDIO_CTX (effect_volume v (e, m)) = GLOBAL_AUDIO_CTX e"
  "MEDIA_SRC (effect_volume v (e, m)) = MEDIA_SRC e"
  "edges (effect_volume v (e, m)) = edges e"
  "length (heap (effect_volume v (e, m))) = length (heap e)"
  "statics (effect_volume v (e, m)) = statics e"
  by (simp_all add: effect_volume_def split: option.splits)

lemma effect_preGain_fields [simp]:
  "host (effect_preGain v (e, m)) = host e"
  "contexts_created (effect_preGain v (e, m)) = contexts_created e"
  "GLOBAL_AUDIO_CTX (effect_preGain v (e, m)) = GLOBAL_AUDIO_CTX e"
  "MEDIA_SRC (effect_preGain v (e, m)) = MEDIA_SRC e"
  "edges (effect_preGain v (e, m)) = edges e"
  "length (heap (effect_preGain v (e, m))) = length (heap e)"
  "statics (effect_preGain v (e, m)) = statics e"
  by (simp_all add: effect_preGain_def split: option.splits)

lemma effect_eqGains_fields [simp]:
  "host (effect_eqGains gs (e, m)) = host e"
  "contexts_created (effect_eqGains gs (e, m)) = contexts_created e"
  "GLOBAL_AUDIO_CTX (effect_eqGains gs (e, m)) = GLOBAL_AUDIO_CTX e"
  "MEDIA_SRC (effect_eqGains gs (e, m)) = MEDIA_SRC e"
  "edges (effect_eqGains gs (e, m)) = edges e"
  "length (heap (effect_eqGains gs (e, m))) = length (heap e)"
  "statics (effect_eqGains gs (e, m)) = statics e"
  by (simp_all add: effect_eqGains_def)

lemma effect_analyser_fields [simp]:
  "host (effect_analyser n x (e, m)) = host e"
  "contexts_created (effect_analyser n x (e, m)) = contexts_created e"
  "GLOBAL_AUDIO_CTX (effect_analyser n x (e, m)) = GLOBAL_AUDIO_CTX e"
  "MEDIA_SRC (effect_analyser n x (e, m)) = MEDIA_SRC e"
  "edges (effect_analyser n x (e, m)) = edges e"
  "length (heap (effect_analyser n x (e, m))) = length (heap e)"
  "statics (effect_analyser n x (e, m)) = statics e"
  by (simp_all add: effect_analyser_def split: option.splits)

lemma disconnect_opt_fields [simp]:
  "host (disconnect_opt r e) = host e"
  "contexts_created (disconnect_opt r e) = contexts_created e"
  "GLOBAL_AUDIO_CTX (disconnect_opt r e) = GLOBAL_AUDIO_CTX e"
  "MEDIA_SRC (disconnect_opt r e) = MEDIA_SRC e"
  "heap (disconnect_opt r e) = heap e"
  "statics (disconnect_opt r e) = statics e"
  by (simp_all add: disconnect_opt_def split: option.splits)

lemma fold_disconnect_fields [simp]:
  "host (fold disconnect ns e) = host e"
  "contexts_created (fold disconnect ns e) = contexts_created e"
  "GLOBAL_AUDIO_CTX (fold disconnect ns e) = GLOBAL_AUDIO_CTX e"
  "MEDIA_SRC (fold disconnect ns e) = MEDIA_SRC e"
  "heap (fold disconnect ns e) = heap e"
  "statics (fold disconnect ns e) = statics e"
  by (induction ns arbitrary: e; simp)+

lemma out_edges_disconnect_opt [simp]:
  "out_edges (disconnect_opt r e) n = (if r = Some n then [] else out_edges e n)"
  by (auto simp: disconnect_opt_def split: option.splits)

lemma out_edges_fold_disconnect [simp]:
  "out_edges (fold disconnect ns e) n = (if n \<in> set ns then [] else out_edges e n)"
  by (induction ns arbitrary: e) auto

lemma cleanup_eq:
  "cleanup (e, m) =
     (disconnect_opt (analyserRef m)
        (fold disconnect (eqNodesRef m)
           (disconnect_opt (preGainRef m)
              (disconnect_opt (gainRef m)
                 (disconnect_opt (srcNodeRef m) e)))),
      cleared m)"
  by (simp add: cleanup_def cleared_def)

lemma refs_ok_cleared [simp]: "refs_ok e (cleared m)"
  by (simp add: refs_ok_def cleared_def)

lemma refs_ok_initial [simp]: "refs_ok e (initial_refs el)"
  by (simp add: refs_ok_def initial_refs_def)

lemma cleanup_post:
  assumes "cleanup (e, m) = (e', m')"
  shows "statics e' = statics e" "MEDIA_SRC e' = MEDIA_SRC e"
    "GLOBAL_AUDIO_CTX e' = GLOBAL_AUDIO_CTX e" "contexts_created e' = contexts_created e"
    "host e' = host e" "heap e' = heap e" "m' = cleared m"
  using assms by (auto simp: cleanup_eq)

lemma env_ok_ctx_state:
  assumes "env_ok e" "GLOBAL_AUDIO_CTX e = Some ctx" "st \<noteq> Closed"
  shows "env_ok (e\<lparr>GLOBAL_AUDIO_CTX := Some (ctx\<lparr>state := st\<rparr>)\<rparr>)"
  using assms by (auto simp: env_ok_def)

lemma env_ok_resume: "env_ok e \<Longrightarrow> env_ok (resume e)"
  by (auto simp: resume_def env_ok_ctx_state split: option.splits)

lemma env_ok_host_suspend: "env_ok e \<Longrightarrow> env_ok (host_suspend e)"
  by (auto simp: host_suspend_def env_ok_ctx_state split: option.splits)

lemma resume_fields [simp]:
  "statics (resume e) = statics e" "heap (resume e) = heap e" "MEDIA_SRC (resume e) = MEDIA_SRC e"
  "edges (resume e) = edges e" "host (resume e) = host e"
  "contexts_created (resume e) = contexts_created e"
  by (simp_all add: resume_def statics_def split: option.splits)

lemma host_suspend_fields [simp]:
  "statics (host_suspend e) = statics e" "heap (host_suspend e) = heap e"
  "MEDIA_SRC (host_suspend e) = MEDIA_SRC e" "edges (host_suspend e) = edges e"
  "host (host_suspend e) = host e" "contexts_created (host_suspend e) = contexts_created e"
  by (simp_all add: host_suspend_def statics_def split: option.splits)

lemma resume_ctx:
  "GLOBAL_AUDIO_CTX (resume e) = map_option (\<lambda>ctx. ctx\<lparr>state := Running\<rparr>) (GLOBAL_AUDIO_CTX e)"
  by (simp add: resume_def split: option.splits)

lemma host_suspend_ctx:
  "GLOBAL_AUDIO_CTX (host_suspend e) = map_option (\<lambda>ctx. ctx\<lparr>state := Suspended\<rparr>) (GLOBAL_AUDIO_CTX e)"
  by (simp add: host_suspend_def split: option.splits)

lemma env_ok_new_context:
  assumes "env_ok e" "GLOBAL_AUDIO_CTX e = None" "new_AudioContext e = Inr (ctx, e1)"
  shows "env_ok (e1\<lparr>GLOBAL_AUDIO_CTX := Some ctx\<rparr>)" (is "env_ok ?e'")
    and "heap e1 = heap e @ [AudioDestinationNode]" and "MEDIA_SRC e1 = MEDIA_SRC e"
    and "host e1 = host e" and "edges e1 = edges e"
    and "ctx = \<lparr>ident = 0, state = state ctx, destination = length (heap e)\<rparr>"
    and "initial_state (host e) = Some (state ctx)"
proof -
  have cc: "contexts_created e = 0"
    using assms(1,2) by (simp add: env_ok_def)
  obtain s where s: "initial_state (host e) = Some s" and open_s: "s \<noteq> Closed"
    and ctx: "ctx = \<lparr>ident = 0, state = s, destination = length (heap e)\<rparr>"
    and e1: "e1 = e\<lparr>heap := heap e @ [AudioDestinationNode], contexts_created := Suc 0\<rparr>"
    using assms(3) cc
    by (auto simp: new_AudioContext_def alloc_def initial_state_def split: host_audio.splits)
  show "heap e1 = heap e @ [AudioDestinationNode]" "MEDIA_SRC e1 = MEDIA_SRC e"
    "host e1 = host e" "edges e1 = edges e"
    "ctx = \<lparr>ident = 0, state = state ctx, destination = length (heap e)\<rparr>"
    "initial_state (host e) = Some (state ctx)"
    by (simp_all add: e1 ctx s)
  have st: "statics e1 = statics e @ [SDest]"
    by (simp add: statics_def e1)
  have f1: "MEDIA_SRC e1 = MEDIA_SRC e" "length (heap e1) = Suc (length (heap e))"
    "contexts_created e1 = Suc 0"
    by (simp_all add: e1)
  have nth: "n < length (heap e) \<Longrightarrow> statics e1 ! n = statics e ! n" for n
    by (simp add: st nth_append)
  show "env_ok ?e'"
    unfolding env_ok_def
  proof (intro conjI allI impI)
    fix el
    show "count_list (statics ?e') (SSrc el) = (case MEDIA_SRC ?e' el of None \<Rightarrow> 0 | Some n \<Rightarrow> 1)"
      using assms(1) by (simp add: st env_ok_def f1)
  next
    fix el n
    assume "MEDIA_SRC ?e' el = Some n"
    then have "n < length (heap e) \<and> statics e ! n = SSrc el"
      using assms(1) by (simp add: env_ok_def f1)
    then show "n < length (heap ?e')" "statics ?e' ! n = SSrc el"
      using nth by (auto simp: f1)
  next
    fix c
    assume "GLOBAL_AUDIO_CTX ?e' = Some c"
    then have c: "c = ctx" by simp
    show "destination c < length (heap ?e')" "statics ?e' ! destination c = SDest"
      "ident c = 0" "state c \<noteq> Closed"
      using open_s by (simp_all add: c ctx f1 st nth_append)
  next
    show "contexts_created ?e' = (case GLOBAL_AUDIO_CTX ?e' of None \<Rightarrow> 0 | Some ctx \<Rightarrow> 1)"
      by (simp add: f1)
  qed
qed

lemma ensure_context_post:
  assumes "env_ok e"
  shows "(ensure_context e = Inl ContextUnavailable \<and> GLOBAL_AUDIO_CTX e = None \<and>
            initial_state (host e) = None) \<or>
         (\<exists>ctx e1. ensure_context e = Inr (ctx, e1) \<and> env_ok e1 \<and>
            GLOBAL_AUDIO_CTX e1 = Some ctx \<and> MEDIA_SRC e1 = MEDIA_SRC e \<and> host e1 = host e \<and>
            edges e1 = edges e \<and>
            (case GLOBAL_AUDIO_CTX e of
               Some c \<Rightarrow> c = ctx \<and> e1 = e
             | None \<Rightarrow> heap e1 = heap e @ [AudioDestinationNode] \<and>
                 initial_state (host e) = Some (state ctx)))"
proof (cases "GLOBAL_AUDIO_CTX e")
  case (Some ctx)
  then show ?thesis using assms by (simp add: ensure_context_def)
next
  case None
  show ?thesis
  proof (cases "new_AudioContext e")
    case (Inl err)
    then have "err = ContextUnavailable \<and> initial_state (host e) = None"
      by (auto simp: new_AudioContext_def alloc_def split: option.splits)
    then show ?thesis using None Inl by (simp add: ensure_context_def)
  next
    case (Inr r)
    obtain ctx e1 where r: "r = (ctx, e1)" by (cases r)
    note nc = env_ok_new_context [OF assms None Inr [unfolded r]]
    show ?thesis
      using None Inr r nc(1-5,7) by (simp add: ensure_context_def)
  qed
qed

lemma refs_ok_audioCtxRef [simp]: "refs_ok e (m\<lparr>audioCtxRef := x\<rparr>) = refs_ok e m"
  by (simp add: refs_ok_def)

lemma ensureGraph_post:
  assumes ok: "env_ok e" "refs_ok e m" and run: "ensureGraph opts (e, m) = (out, e', m')"
  shows "env_ok e' \<and> refs_ok e' m' \<and> grows e e' \<and>
         (GLOBAL_AUDIO_CTX e \<noteq> None \<longrightarrow> GLOBAL_AUDIO_CTX e' \<noteq> None) \<and>
         (case out of
            Fulfilled \<Rightarrow> True
          | Rejected err \<Rightarrow> err = ContextUnavailable
          | Awaiting el \<Rightarrow> GLOBAL_AUDIO_CTX e' \<noteq> None)"
proof (cases "audioRef m")
  case None
  then show ?thesis using ok run by (auto simp: ensureGraph_def)
next
  case (Some el)
  from ensure_context_post [OF ok(1)] show ?thesis
  proof (elim disjE exE conjE)
    assume "ensure_context e = Inl ContextUnavailable"
    then show ?thesis using ok run Some by (auto simp: ensureGraph_def)
  next
    fix ctx e1
    assume c: "ensure_context e = Inr (ctx, e1)" "env_ok e1" "GLOBAL_AUDIO_CTX e1 = Some ctx"
      and h: "case GLOBAL_AUDIO_CTX e of Some c \<Rightarrow> c = ctx \<and> e1 = e
              | None \<Rightarrow> heap e1 = heap e @ [AudioDestinationNode] \<and>
                  initial_state (host e) = Some (state ctx)"
    have g1: "grows e e1"
      using h by (auto split: option.splits intro: heap_grows)
    let ?m1 = "m\<lparr>audioCtxRef := Some (ident ctx)\<rparr>"
    have r1: "refs_ok e1 ?m1"
      using refs_ok_grows [OF ok(2) g1] by simp
    show ?thesis
    proof (cases "state ctx = Suspended")
      case True
      then have "out = Awaiting el" "e' = e1" "m' = ?m1"
        using run Some c(1) by (auto simp: ensureGraph_def)
      then show ?thesis using c r1 g1 by simp
    next
      case False
      then have "ensureGraph_resumed el opts (e1, ?m1) = (out, e', m')"
        using run Some c(1) by (auto simp: ensureGraph_def)
      from ensureGraph_resumed_post [OF c(2) r1 c(3) this]
      have "out = Fulfilled" "env_ok e'" "refs_ok e' m'" "\<exists>zs. heap e' = heap e1 @ zs"
        "GLOBAL_AUDIO_CTX e' = Some ctx"
        by simp_all
      then show ?thesis
        using g1 by (auto intro: grows_trans heap_grows)
    qed
  qed
qed

lemma set_update_all: "(\<forall>c \<in> set cs. P c) \<Longrightarrow> P c' \<Longrightarrow> (\<forall>c \<in> set (cs[i := c']). P c)"
  by (metis insert_iff set_update_subset_insert subsetD)

lemma sys_ok_settle:
  assumes "sys_ok s" "env_ok e'" "refs_ok e' m'" "grows (world s) e'"
    "GLOBAL_AUDIO_CTX (world s) \<noteq> None \<longrightarrow> GLOBAL_AUDIO_CTX e' \<noteq> None"
    "case out of Fulfilled \<Rightarrow> True
     | Rejected err \<Rightarrow> err = ContextUnavailable \<or> err = ResumeRejected
     | Awaiting el \<Rightarrow> GLOBAL_AUDIO_CTX e' \<noteq> None \<and> i < length (components s)"
  shows "sys_ok (settle i opts (out, e', m') s)"
proof -
  let ?cs = "(components s)[i := (components s ! i)\<lparr>refs := m'\<rparr>]"
  have others: "\<forall>c \<in> set (components s). refs_ok e' (refs c)"
    using assms(1,4) by (auto simp: sys_ok_def intro: refs_ok_grows)
  have comps: "\<forall>c \<in> set ?cs. refs_ok e' (refs c)"
    using others assms(3) by (intro set_update_all) simp_all
  have base: "sys_ok (s\<lparr>world := e', components := ?cs\<rparr>)"
    using assms(1,2,5) comps unfolding sys_ok_def by simp
  show ?thesis
  proof (cases out)
    case Fulfilled
    then show ?thesis using base by (simp add: settle_def)
  next
    case (Rejected err)
    then have "err = ContextUnavailable \<or> err = ResumeRejected"
      using assms(6) by simp
    then have "sys_ok (s\<lparr>world := e', components := ?cs, rejections := rejections s @ [err]\<rparr>)"
      using base unfolding sys_ok_def by auto
    then show ?thesis using Rejected by (simp add: settle_def)
  next
    case (Awaiting el)
    then have "GLOBAL_AUDIO_CTX e' \<noteq> None" "i < length (components s)"
      using assms(6) by simp_all
    then have "sys_ok (s\<lparr>world := e', components := ?cs, pending := pending s @ [(i, el, opts)]\<rparr>)"
      using base unfolding sys_ok_def by auto
    then show ?thesis using Awaiting by (simp add: settle_def)
  qed
qed

lemma sys_ok_drop_pending: "sys_ok s \<Longrightarrow> k < length (pending s) \<Longrightarrow> sys_ok (drop_pending k s)"
  unfolding sys_ok_def drop_pending_def
  by (auto dest: in_set_takeD in_set_dropD)

lemma sys_ok_world:
  assumes "sys_ok s" "env_ok e'" "grows (world s) e'"
    "GLOBAL_AUDIO_CTX (world s) \<noteq> None \<longrightarrow> GLOBAL_AUDIO_CTX e' \<noteq> None"
  shows "sys_ok (s\<lparr>world := e'\<rparr>)"
proof -
  have "\<forall>c \<in> set (components s). refs_ok e' (refs c)"
    using assms(1,3) by (auto simp: sys_ok_def intro: refs_ok_grows)
  then show ?thesis
    using assms(1,2,4) unfolding sys_ok_def by simp
qed

lemma sys_ok_update_options:
  assumes "sys_ok s" "i < length (components s)"
  shows "sys_ok (update_options i f s)"
proof -
  let ?c = "(components s ! i)\<lparr>options := f (options (components s ! i))\<rparr>"
  have "refs_ok (world s) (refs ?c)"
    using assms by (simp add: sys_ok_def)
  then have "\<forall>c \<in> set ((components s)[i := ?c]). refs_ok (world s) (refs c)"
    using assms(1) by (intro set_update_all) (simp_all add: sys_ok_def)
  then show ?thesis
    using assms(1) unfolding update_options_def sys_ok_def by simp
qed

lemma same_statics_grows: "statics e' = statics e \<Longrightarrow> grows e e'"
  by (simp add: grows_def)

lemma sys_ok_effect:
  assumes "sys_ok s" "statics e' = statics (world s)" "MEDIA_SRC e' = MEDIA_SRC (world s)"
    "GLOBAL_AUDIO_CTX e' = GLOBAL_AUDIO_CTX (world s)"
    "contexts_created e' = contexts_created (world s)"
  shows "sys_ok (s\<lparr>world := e'\<rparr>)"
proof -
  have "env_ok e' = env_ok (world s)"
    using assms(2-5) by (rule env_ok_cong)
  then have "env_ok e'"
    using assms(1) by (simp add: sys_ok_def)
  then show ?thesis
    using assms by (intro sys_ok_world) (simp_all add: same_statics_grows)
qed

lemma sys_ok_effect_then_option:
  assumes "sys_ok s" "i < length (components s)" "statics e' = statics (world s)"
    "MEDIA_SRC e' = MEDIA_SRC (world s)" "GLOBAL_AUDIO_CTX e' = GLOBAL_AUDIO_CTX (world s)"
    "contexts_created e' = contexts_created (world s)"
  shows "sys_ok (update_options i f (s\<lparr>world := e'\<rparr>))"
proof -
  have "sys_ok (s\<lparr>world := e'\<rparr>)"
    using assms(1,3-6) by (rule sys_ok_effect)
  then show ?thesis
    using assms(2) by (intro sys_ok_update_options) simp_all
qed

lemma sys_ok_at_component:
  assumes "sys_ok s" "i < length (components s)"
  shows "sys_ok (at_component i ev s)"
proof -
  let ?c = "components s ! i"
  have c: "refs_ok (world s) (refs ?c)" and e: "env_ok (world s)"
    using assms by (simp_all add: sys_ok_def)
  note eff = sys_ok_effect_then_option [OF assms]
  show ?thesis
  proof (cases ev)
    case (CallEnsureGraph j)
    obtain out e' m' where r: "ensureGraph (hook_options ?c) (world s, refs ?c) = (out, e', m')"
      by (metis prod_cases3)
    from ensureGraph_post [OF e c r] have "sys_ok (settle i (hook_options ?c) (out, e', m') s)"
      using assms(2) by (intro sys_ok_settle [OF assms(1)]) (auto split: outcome.splits)
    then show ?thesis by (simp add: at_component_def Let_def CallEnsureGraph r)
  next
    case (Unmount j)
    obtain e' m' where r: "cleanup (world s, refs ?c) = (e', m')"
      by (metis surj_pair)
    note p = cleanup_post [OF r]
    have 1: "sys_ok (s\<lparr>world := e'\<rparr>)"
      using assms(1) p by (intro sys_ok_effect) simp_all
    then have "\<forall>c \<in> set ((components s)[i := ?c\<lparr>refs := m'\<rparr>]). refs_ok e' (refs c)"
      by (intro set_update_all) (simp_all add: sys_ok_def p(7))
    then have "sys_ok (s\<lparr>world := e', components := (components s)[i := ?c\<lparr>refs := m'\<rparr>]\<rparr>)"
      using 1 unfolding sys_ok_def by simp
    then show ?thesis by (simp add: at_component_def Let_def Unmount r)
  next
    case (SetVolume j v)
    then show ?thesis using assms(1) by (simp add: at_component_def Let_def eff)
  next
    case (SetEqPreGain j v)
    then show ?thesis using assms(1) by (simp add: at_component_def Let_def eff)
  next
    case (HandleGainChange j k v)
    then show ?thesis using assms(1) by (simp add: at_component_def Let_def eff)
  next
    case (SetFftSize j v)
    then show ?thesis using assms(1) by (simp add: at_component_def Let_def eff)
  next
    case (SetSmoothing j v)
    then show ?thesis using assms(1) by (simp add: at_component_def Let_def eff)
  next
    case (SetIsEqEnabled j b)
    then show ?thesis using assms by (simp add: at_component_def Let_def sys_ok_update_options)
  qed (simp_all add: at_component_def Let_def assms)
qed

lemma sys_ok_resume_done:
  assumes "sys_ok s"
  shows "sys_ok (resume_done k s)"
proof (cases "k < length (pending s)")
  case False
  then show ?thesis using assms by (simp add: resume_done_def)
next
  case True
  obtain i el opts where p: "pending s ! k = (i, el, opts)"
    by (metis prod_cases3)
  let ?s = "drop_pending k s"
  let ?m = "refs (components s ! i)"
  have "pending s ! k \<in> set (pending s)"
    using True by simp
  then have i: "i < length (components s)"
    using assms p unfolding sys_ok_def by fastforce
  obtain ctx where ctx: "GLOBAL_AUDIO_CTX (world s) = Some ctx"
    using assms True by (auto simp: sys_ok_def)
  have rc: "GLOBAL_AUDIO_CTX (resume (world s)) = Some (ctx\<lparr>state := Running\<rparr>)"
    by (simp add: resume_ctx ctx)
  have e: "env_ok (resume (world s))"
    using assms by (simp add: sys_ok_def env_ok_resume)
  have ok: "sys_ok ?s"
    using assms True by (rule sys_ok_drop_pending)
  have w: "world ?s = world s" "components ?s = components s"
    by (simp_all add: drop_pending_def)
  obtain out e' m' where r: "ensureGraph_resumed el opts (resume (world s), ?m) = (out, e', m')"
    by (metis prod_cases3)
  have "refs_ok (resume (world s)) ?m = refs_ok (world s) ?m"
    by (rule refs_ok_cong) simp
  then have m: "refs_ok (resume (world s)) ?m"
    using assms i by (simp add: sys_ok_def)
  from ensureGraph_resumed_post [OF e m rc r]
  have post: "out = Fulfilled" "env_ok e'" "refs_ok e' m'" "\<exists>zs. heap e' = heap (resume (world s)) @ zs"
    "GLOBAL_AUDIO_CTX e' \<noteq> None"
    by simp_all
  have "grows (world s) e'"
    using post(4) by (auto simp: grows_def statics_def)
  then have "sys_ok (settle i opts (out, e', m') ?s)"
    using post by (intro sys_ok_settle [OF ok]) (simp_all add: w)
  then show ?thesis
    using True by (simp add: resume_done_def p r w)
qed

lemma sys_ok_resume_fail: "sys_ok s \<Longrightarrow> sys_ok (resume_fail k s)"
proof (cases "k < length (pending s)")
  case True
  assume "sys_ok s"
  then have "sys_ok (drop_pending k s)"
    using True by (rule sys_ok_drop_pending)
  then show ?thesis
    using True unfolding resume_fail_def sys_ok_def by (simp add: drop_pending_def)
next
  case False
  assume "sys_ok s"
  then show ?thesis using False by (simp add: resume_fail_def)
qed

lemma sys_ok_mount: "sys_ok s \<Longrightarrow> sys_ok (s\<lparr>components := components s @ [mount el]\<rparr>)"
  unfolding sys_ok_def by (auto simp: mount_def)

lemma sys_ok_host_suspend: "sys_ok s \<Longrightarrow> sys_ok (s\<lparr>world := host_suspend (world s)\<rparr>)"
  by (rule sys_ok_world) (auto simp: sys_ok_def env_ok_host_suspend same_statics_grows host_suspend_ctx)

lemma sys_ok_step: "sys_ok s \<Longrightarrow> sys_ok (step ev s)"
  by (cases ev)
    (simp_all add: step_def target_def sys_ok_resume_done sys_ok_resume_fail sys_ok_mount
       sys_ok_host_suspend sys_ok_at_component)

lemma sys_ok_start: "sys_ok (start h)"
  by (simp add: sys_ok_def start_def env_ok_def statics_def)

lemma sys_ok_run_from: "sys_ok s \<Longrightarrow> sys_ok (run evs s)"
  unfolding run_def by (induction evs arbitrary: s) (simp_all add: sys_ok_step)

lemma sys_ok_run: "sys_ok (run evs (start h))"
  by (rule sys_ok_run_from [OF sys_ok_start])

section \<open>Runs on concrete schedules\<close>

lemmas schedule_eval = run_def step_def target_def at_component_def Let_def settle_def start_def
  mount_def initial_refs_def initial_options_def hook_options_def GraphOptions.truncate_def
  PlayerOptions.defs GraphOptions.defs resume_def resume_done_def drop_pending_def
  update_options_def

lemmas graph_eval = ensureGraph_def ensure_context_def new_AudioContext_def initial_state_def
  alloc_def ensureGraph_resumed_def ensure_src_eq ensure_gain_eq ensure_preGain_eq
  ensure_eqNodes_eq ensure_analyser_eq EQ_FREQUENCIES_def gain_or_zero_def connect_def
  disconnect_def

text \<open>
  C6. With a host that has no audio context constructor, \<open>togglePlay\<close> ends in a rejection
  that nothing catches: the error message slot keeps its old content.
\<close>

theorem togglePlay_context_unavailable_uncaught:
  "togglePlay PlayOk (world (start NoAudioContext), mount (Some 0)) =
     (Rejected ContextUnavailable, world (start NoAudioContext), mount (Some 0)) \<and>
   errMsg (mount (Some 0)) = [] \<and> paused (mount (Some 0)) \<and>
   togglePlay_played (PlayRejected ''NotAllowedError'') (mount (Some 0)) =
     (mount (Some 0))\<lparr>errMsg := ''NotAllowedError''\<rparr>"
  by (simp add: togglePlay_def togglePlay_played_def ensureGraph_complete_def ensureGraph_def
        ensure_context_def new_AudioContext_def initial_state_def start_def mount_def
        initial_refs_def)

text \<open>
  C1. With \<open>isEqEnabled\<close> false in the caller's options, \<open>ensureGraph\<close> still wires the
  pre-gain node (3) to the first filter band (4), and the last band (34) to the analyser (35).
\<close>

theorem ensureGraph_ignores_isEqEnabled:
  "isEqEnabled (options (components (run [Mount (Some 0), SetIsEqEnabled 0 False, CallEnsureGraph 0]
      (start StartsRunning)) ! 0)) = False \<and>
   refs (components (run [Mount (Some 0), SetIsEqEnabled 0 False, CallEnsureGraph 0]
      (start StartsRunning)) ! 0) =
     \<lparr>audioRef = Some 0, audioCtxRef = Some 0, srcNodeRef = Some 1, gainRef = Some 2,
      preGainRef = Some 3, eqNodesRef = [4 ..< 35], analyserRef = Some 35\<rparr> \<and>
   out_edges (world (run [Mount (Some 0), SetIsEqEnabled 0 False, CallEnsureGraph 0]
      (start StartsRunning))) 3 = [(3, 4)] \<and>
   out_edges (world (run [Mount (Some 0), SetIsEqEnabled 0 False, CallEnsureGraph 0]
      (start StartsRunning))) 34 = [(34, 35)] \<and>
   heap (world (run [Mount (Some 0), SetIsEqEnabled 0 False, CallEnsureGraph 0]
      (start StartsRunning))) ! 4 = BiquadFilterNode ''peaking'' 20 4.31 0"
  by (simp add: schedule_eval graph_eval out_edges_def)

text \<open>
  C4. The context starts suspended, the call awaits \<open>resume()\<close>, the volume is set to 0.5
  meanwhile (the effect finds no gain node), and the call then creates the gain node with
  the volume it captured: 0.9.
\<close>

theorem volume_set_while_awaiting_is_lost:
  "volume (options (components (run [Mount (Some 0), CallEnsureGraph 0, SetVolume 0 0.5, ResumeDone 0]
      (start StartsSuspended)) ! 0)) = 0.5 \<and>
   gainRef (refs (components (run [Mount (Some 0), CallEnsureGraph 0, SetVolume 0 0.5, ResumeDone 0]
      (start StartsSuspended)) ! 0)) = Some 2 \<and>
   heap (world (run [Mount (Some 0), CallEnsureGraph 0, SetVolume 0 0.5, ResumeDone 0]
      (start StartsSuspended))) ! 2 = GainNode 0.9"
  by (simp add: schedule_eval graph_eval effect_volume_def)

section \<open>Calls that come to their end\<close>

lemma ensureGraph_resumed_wired:
  assumes "env_ok e" "refs_ok e m" "GLOBAL_AUDIO_CTX e = Some ctx"
    "ensureGraph_resumed el opts (e, m) = (out, e', m')"
  shows "out = Fulfilled \<and> graph_wired e' m' \<and> MEDIA_SRC e' el \<noteq> None \<and>
         srcNodeRef m' = MEDIA_SRC e' el"
  using ensureGraph_resumed_post [OF assms]
  by (auto simp: graph_wired_def)

lemma ensureGraph_fulfilled:
  assumes "env_ok e" "refs_ok e m" "ensureGraph opts (e, m) = (Fulfilled, e', m')"
    "audioRef m = Some el"
  shows "graph_wired e' m' \<and> MEDIA_SRC e' el \<noteq> None \<and> srcNodeRef m' = MEDIA_SRC e' el"
proof -
  from ensure_context_post [OF assms(1)] show ?thesis
  proof (elim disjE exE conjE)
    assume "ensure_context e = Inl ContextUnavailable"
    then show ?thesis using assms(3,4) by (simp add: ensureGraph_def)
  next
    fix ctx e1
    assume c: "ensure_context e = Inr (ctx, e1)" "env_ok e1" "GLOBAL_AUDIO_CTX e1 = Some ctx"
      and h: "case GLOBAL_AUDIO_CTX e of Some c \<Rightarrow> c = ctx \<and> e1 = e
              | None \<Rightarrow> heap e1 = heap e @ [AudioDestinationNode] \<and>
                  initial_state (host e) = Some (state ctx)"
    have g1: "grows e e1"
      using h by (auto split: option.splits intro: heap_grows)
    let ?m1 = "m\<lparr>audioCtxRef := Some (ident ctx)\<rparr>"
    have r1: "refs_ok e1 ?m1"
      using refs_ok_grows [OF assms(2) g1] by simp
    have run: "state ctx \<noteq> Suspended \<and> ensureGraph_resumed el opts (e1, ?m1) = (Fulfilled, e', m')"
      using assms(3,4) c(1) by (auto simp: ensureGraph_def split: if_splits)
    then show ?thesis
      using ensureGraph_resumed_wired [OF c(2) r1 c(3)] by blast
  qed
qed

lemma settle_Fulfilled:
  "world (settle i opts (Fulfilled, e', m') s) = e'"
  "i < length (components s) \<Longrightarrow> refs (components (settle i opts (Fulfilled, e', m') s) ! i) = m'"
  by (simp_all add: settle_def)

lemma settle_log:
  "pending (settle i opts (out, e', m') s) =
     (case out of Awaiting el \<Rightarrow> pending s @ [(i, el, opts)] | _ \<Rightarrow> pending s)"
  "rejections (settle i opts (out, e', m') s) =
     (case out of Rejected err \<Rightarrow> rejections s @ [err] | _ \<Rightarrow> rejections s)"
  by (simp_all add: settle_def split: outcome.splits)

lemma completes_post:
  assumes "sys_ok s" "completes ev s i" "call_element ev s = Some el"
  shows "graph_wired (world (step ev s)) (refs (components (step ev s) ! i)) \<and>
         MEDIA_SRC (world (step ev s)) el \<noteq> None \<and>
         srcNodeRef (refs (components (step ev s) ! i)) = MEDIA_SRC (world (step ev s)) el"
proof (cases ev)
  case (CallEnsureGraph j)
  let ?c = "components s ! i"
  have j: "j = i" and i: "i < length (components s)" and el: "audioRef (refs ?c) = Some el"
    and same: "pending (step ev s) = pending s" "rejections (step ev s) = rejections s"
    using assms(2,3) by (auto simp: completes_def call_element_def CallEnsureGraph)
  obtain out e' m' where r: "ensureGraph (hook_options ?c) (world s, refs ?c) = (out, e', m')"
    by (metis prod_cases3)
  have st: "step ev s = settle i (hook_options ?c) (out, e', m') s"
    using i by (simp add: step_def target_def CallEnsureGraph j at_component_def Let_def r)
  have "out = Fulfilled"
    using same by (cases out) (simp_all add: st settle_log)
  moreover have "env_ok (world s)" "refs_ok (world s) (refs ?c)"
    using assms(1) i by (simp_all add: sys_ok_def)
  ultimately show ?thesis
    using ensureGraph_fulfilled [OF _ _ _ el, of "world s" "hook_options ?c" e' m'] r i
    by (simp add: st settle_Fulfilled)
next
  case (ResumeDone k)
  have k: "k < length (pending s)" and ik: "fst (pending s ! k) = i"
    and elk: "fst (snd (pending s ! k)) = el"
    using assms(2,3) by (auto simp: completes_def call_element_def ResumeDone)
  obtain opts where p: "pending s ! k = (i, el, opts)"
    using ik elk by (cases "pending s ! k") auto
  have "pending s ! k \<in> set (pending s)"
    using k by simp
  then have i: "i < length (components s)"
    using assms(1) p unfolding sys_ok_def by fastforce
  let ?m = "refs (components s ! i)"
  obtain ctx where ctx: "GLOBAL_AUDIO_CTX (world s) = Some ctx"
    using assms(1) k by (auto simp: sys_ok_def)
  have rc: "GLOBAL_AUDIO_CTX (resume (world s)) = Some (ctx\<lparr>state := Running\<rparr>)"
    by (simp add: resume_ctx ctx)
  have e: "env_ok (resume (world s))"
    using assms(1) by (simp add: sys_ok_def env_ok_resume)
  have "refs_ok (resume (world s)) ?m = refs_ok (world s) ?m"
    by (rule refs_ok_cong) simp
  then have m: "refs_ok (resume (world s)) ?m"
    using assms(1) i by (simp add: sys_ok_def)
  obtain out e' m' where r: "ensureGraph_resumed el opts (resume (world s), ?m) = (out, e', m')"
    by (metis prod_cases3)
  have st: "step ev s = settle i opts (out, e', m') (drop_pending k s)"
    using k by (simp add: step_def ResumeDone resume_done_def p r)
  have "i < length (components (drop_pending k s))"
    using i by (simp add: drop_pending_def)
  then show ?thesis
    using ensureGraph_resumed_wired [OF e m rc r] by (simp add: st settle_Fulfilled)
qed (use assms(2) in \<open>simp_all add: completes_def\<close>)

lemma run_snoc: "run (evs @ [ev]) s = step ev (run evs s)"
  by (simp add: run_def)

lemma source_count:
  assumes "env_ok e"
  shows "count_list (heap e) (MediaElementAudioSourceNode el) =
           (case MEDIA_SRC e el of None \<Rightarrow> 0 | Some n \<Rightarrow> 1)"
proof -
  have "count_list (statics e) (SSrc el) = (case MEDIA_SRC e el of None \<Rightarrow> 0 | Some n \<Rightarrow> 1)"
    using assms by (simp add: env_ok_def)
  then show ?thesis
    by (simp add: statics_def count_statics)
qed

text \<open>
  C2. Whatever the schedule of calls, resumptions, updates and unmounts, the heap holds a
  source node for a media element exactly when the side table has an entry for it, and
  never more than one; the host never refuses a creation; and when a call for an element
  has come to its end there is exactly one source node for that element.
\<close>

theorem media_source_created_once:
  "count_list (heap (world (run evs (start h)))) (MediaElementAudioSourceNode el) =
     (case MEDIA_SRC (world (run evs (start h))) el of None \<Rightarrow> 0 | Some n \<Rightarrow> 1) \<and>
   InvalidStateError \<notin> set (rejections (run evs (start h))) \<and>
   (\<forall>ev i. completes ev (run evs (start h)) i \<longrightarrow>
      call_element ev (run evs (start h)) = Some el \<longrightarrow>
      count_list (heap (world (step ev (run evs (start h))))) (MediaElementAudioSourceNode el) = 1)"
proof (intro conjI allI impI)
  have ok: "sys_ok (run evs (start h))"
    by (rule sys_ok_run)
  then show "count_list (heap (world (run evs (start h)))) (MediaElementAudioSourceNode el) =
      (case MEDIA_SRC (world (run evs (start h))) el of None \<Rightarrow> 0 | Some n \<Rightarrow> 1)"
    by (simp add: sys_ok_def source_count)
  show "InvalidStateError \<notin> set (rejections (run evs (start h)))"
    using ok by (auto simp: sys_ok_def)
  fix ev i
  assume c: "completes ev (run evs (start h)) i" "call_element ev (run evs (start h)) = Some el"
  have "sys_ok (step ev (run evs (start h)))"
    using ok by (rule sys_ok_step)
  then have "count_list (heap (world (step ev (run evs (start h))))) (MediaElementAudioSourceNode el) =
      (case MEDIA_SRC (world (step ev (run evs (start h)))) el of None \<Rightarrow> 0 | Some n \<Rightarrow> 1)"
    by (simp add: sys_ok_def source_count)
  moreover have "MEDIA_SRC (world (step ev (run evs (start h)))) el \<noteq> None"
    using completes_post [OF ok c] by simp
  ultimately show "count_list (heap (world (step ev (run evs (start h))))) (MediaElementAudioSourceNode el) = 1"
    by (auto split: option.splits)
qed

text \<open>
  Two calls made back to back on a suspended context both wait; here the first has resumed
  and the second is still pending.
\<close>

lemma overlapping_calls_pending:
  "pending (run [Mount (Some 0), CallEnsureGraph 0, CallEnsureGraph 0, ResumeDone 0]
     (start StartsSuspended)) = [(0, 0, hook_options (mount (Some 0)))]"
  by (simp add: schedule_eval graph_eval)

theorem media_source_created_once_witness:
  "completes (ResumeDone 0)
     (run [Mount (Some 0), CallEnsureGraph 0, CallEnsureGraph 0, ResumeDone 0] (start StartsSuspended)) 0 \<and>
   call_element (ResumeDone 0)
     (run [Mount (Some 0), CallEnsureGraph 0, CallEnsureGraph 0, ResumeDone 0] (start StartsSuspended)) = Some 0 \<and>
   count_list (heap (world (step (ResumeDone 0)
     (run [Mount (Some 0), CallEnsureGraph 0, CallEnsureGraph 0, ResumeDone 0] (start StartsSuspended)))))
     (MediaElementAudioSourceNode 0) = 1"
proof -
  let ?s = "run [Mount (Some 0), CallEnsureGraph 0, CallEnsureGraph 0, ResumeDone 0] (start StartsSuspended)"
  have c: "completes (ResumeDone 0) ?s 0" "call_element (ResumeDone 0) ?s = Some 0"
    by (simp_all add: completes_def call_element_def overlapping_calls_pending)
  then show ?thesis
    using media_source_created_once [of "[Mount (Some 0), CallEnsureGraph 0, CallEnsureGraph 0, ResumeDone 0]"
        StartsSuspended 0]
    by blast
qed

lemma completes_element: "completes ev s i \<Longrightarrow> \<exists>el. call_element ev s = Some el"
  by (cases ev) (auto simp: completes_def call_element_def)

lemma wired_last: "wired e (xs @ [a, b]) \<Longrightarrow> out_edges e a = [(a, b)]"
proof (induction xs)
  case Nil
  then show ?case by simp
next
  case (Cons x xs)
  then show ?case by (cases xs) simp_all
qed

lemma single_out_edge_list:
  "filter (\<lambda>p. fst p = a) xs = [(a, b)] \<Longrightarrow> count_list xs (a, b) = 1"
proof (induction xs)
  case Nil
  then show ?case by simp
next
  case (Cons p xs)
  show ?case
  proof (cases "fst p = a")
    case True
    with Cons.prems have p: "p = (a, b)" and e: "filter (\<lambda>p. fst p = a) xs = []"
      by simp_all
    from e have "(a, b) \<notin> set xs"
      by (auto simp: filter_empty_conv)
    then have "count_list xs (a, b) = 0"
      by (simp add: count_list_0_iff)
    with p show ?thesis by simp
  next
    case False
    with Cons show ?thesis by auto
  qed
qed

lemma single_out_edge_count: "out_edges e a = [(a, b)] \<Longrightarrow> count_list (edges e) (a, b) = 1"
  unfolding out_edges_def by (rule single_out_edge_list)

lemma graph_wired_destination:
  assumes "graph_wired e m" "GLOBAL_AUDIO_CTX e = Some ctx" "analyserRef m = Some an"
  shows "count_list (edges e) (an, destination ctx) = 1"
proof -
  obtain ns where ns: "chain m (destination ctx) = Some ns" "wired e ns"
    using assms(1,2) by (auto simp: graph_wired_def split: option.splits)
  then obtain xs where "ns = xs @ [an, destination ctx]"
    using assms(3) by (auto simp: chain_def split: option.splits)
  then have "out_edges e an = [(an, destination ctx)]"
    using ns(2) by (auto dest: wired_last)
  then show ?thesis by (rule single_out_edge_count)
qed

text \<open>
  C3. Whatever the schedule, every \<open>ensureGraph\<close> call that comes to its end, also one of
  two overlapping calls, leaves the chain wired link by link, each node with exactly one
  outgoing connection, to its successor, and the analyser connected to the destination
  exactly once. No call ever fails except for a missing context or a rejected resume.
\<close>

theorem ensureGraph_wires_chain_once:
  "set (rejections (run evs (start h))) \<subseteq> {ContextUnavailable, ResumeRejected} \<and>
   (\<forall>ev i. completes ev (run evs (start h)) i \<longrightarrow>
      graph_wired (world (step ev (run evs (start h))))
        (refs (components (step ev (run evs (start h))) ! i)) \<and>
      (\<forall>ctx an.
         GLOBAL_AUDIO_CTX (world (step ev (run evs (start h)))) = Some ctx \<longrightarrow>
         analyserRef (refs (components (step ev (run evs (start h))) ! i)) = Some an \<longrightarrow>
         count_list (edges (world (step ev (run evs (start h))))) (an, destination ctx) = 1))"
proof (intro conjI allI impI)
  have ok: "sys_ok (run evs (start h))"
    by (rule sys_ok_run)
  then show "set (rejections (run evs (start h))) \<subseteq> {ContextUnavailable, ResumeRejected}"
    by (simp add: sys_ok_def)
  fix ev i
  assume c: "completes ev (run evs (start h)) i"
  then obtain el where "call_element ev (run evs (start h)) = Some el"
    by (auto dest: completes_element)
  from completes_post [OF ok c this]
  show w: "graph_wired (world (step ev (run evs (start h))))
      (refs (components (step ev (run evs (start h))) ! i))"
    by simp
  fix ctx an
  assume "GLOBAL_AUDIO_CTX (world (step ev (run evs (start h)))) = Some ctx"
    "analyserRef (refs (components (step ev (run evs (start h))) ! i)) = Some an"
  with w show "count_list (edges (world (step ev (run evs (start h))))) (an, destination ctx) = 1"
    by (rule graph_wired_destination)
qed

theorem ensureGraph_wires_chain_once_witness:
  "completes (ResumeDone 0)
     (run [Mount (Some 0), CallEnsureGraph 0, CallEnsureGraph 0, ResumeDone 0] (start StartsSuspended)) 0 \<and>
   graph_wired
     (world (step (ResumeDone 0)
        (run [Mount (Some 0), CallEnsureGraph 0, CallEnsureGraph 0, ResumeDone 0] (start StartsSuspended))))
     (refs (components (step (ResumeDone 0)
        (run [Mount (Some 0), CallEnsureGraph 0, CallEnsureGraph 0, ResumeDone 0] (start StartsSuspended))) ! 0))"
proof -
  let ?s = "run [Mount (Some 0), CallEnsureGraph 0, CallEnsureGraph 0, ResumeDone 0] (start StartsSuspended)"
  have c: "completes (ResumeDone 0) ?s 0"
    by (simp add: completes_def overlapping_calls_pending)
  then show ?thesis
    using ensureGraph_wires_chain_once [of "[Mount (Some 0), CallEnsureGraph 0, CallEnsureGraph 0, ResumeDone 0]"
        StartsSuspended]
    by blast
qed

section \<open>Reactive updates\<close>

lemma static_gain_iff: "static_of x = SGain \<longleftrightarrow> (\<exists>v. x = GainNode v)"
  by (cases x) auto

lemma static_biquad_iff: "static_of x = SBiquad t f q \<longleftrightarrow> (\<exists>g. x = BiquadFilterNode t f q g)"
  by (cases x) auto

lemma heap_set_gain_value:
  "heap (set_gain_value g v e) ! n =
     (if n = g \<and> g < length (heap e) then with_gain v (heap e ! g) else heap e ! n)"
  by (simp add: set_gain_value_def heap_modify)

lemma refs_ok_gain_node:
  assumes "refs_ok e m" "gainRef m = Some g"
  shows "g < length (heap e)" "\<exists>x. heap e ! g = GainNode x"
    "preGainRef m \<noteq> Some g" "g \<notin> set (eqNodesRef m)"
proof -
  have g: "g < length (heap e)" "statics e ! g = SGain"
    using assms by (simp_all add: refs_ok_def)
  then show "g < length (heap e)" "\<exists>x. heap e ! g = GainNode x"
    by (simp_all add: statics_def static_gain_iff)
  show "preGainRef m \<noteq> Some g"
    using assms by (auto simp: refs_ok_def)
  have "statics e ! q \<noteq> SGain" if "q \<in> set (eqNodesRef m)" for q
    using assms(1) that by (auto simp: refs_ok_def in_set_conv_nth)
  then show "g \<notin> set (eqNodesRef m)"
    using g(2) by auto
qed

lemma effect_volume_heap:
  assumes "refs_ok e m"
  shows "(\<forall>g. gainRef m = Some g \<longrightarrow> heap (effect_volume v (e, m)) ! g = GainNode v) \<and>
         (\<forall>n. gainRef m \<noteq> Some n \<longrightarrow> heap (effect_volume v (e, m)) ! n = heap e ! n) \<and>
         (\<forall>p. preGainRef m = Some p \<longrightarrow> heap (effect_volume v (e, m)) ! p = heap e ! p) \<and>
         (\<forall>q \<in> set (eqNodesRef m). heap (effect_volume v (e, m)) ! q = heap e ! q)"
proof (cases "gainRef m")
  case None
  then show ?thesis by (simp add: effect_volume_def)
next
  case (Some g)
  note g = refs_ok_gain_node [OF assms Some]
  have eff: "effect_volume v (e, m) = set_gain_value g v e"
    by (simp add: effect_volume_def Some)
  show ?thesis
    unfolding eff
  proof (intro conjI allI impI ballI)
    fix x
    assume "gainRef m = Some x"
    then show "heap (set_gain_value g v e) ! x = GainNode v"
      using g(1,2) Some by (auto simp: heap_set_gain_value)
  next
    fix n
    assume "gainRef m \<noteq> Some n"
    then show "heap (set_gain_value g v e) ! n = heap e ! n"
      using Some by (simp add: heap_set_gain_value)
  next
    fix p
    assume "preGainRef m = Some p"
    then have "p \<noteq> g" using g(3) by auto
    then show "heap (set_gain_value g v e) ! p = heap e ! p"
      by (simp add: heap_set_gain_value)
  next
    fix q
    assume "q \<in> set (eqNodesRef m)"
    then have "q \<noteq> g" using g(4) by auto
    then show "heap (set_gain_value g v e) ! q = heap e ! q"
      by (simp add: heap_set_gain_value)
  qed
qed

lemma step_SetVolume:
  assumes "i < length (components s)" "volume (options (components s ! i)) \<noteq> v"
  shows "world (step (SetVolume i v) s) = effect_volume v (world s, refs (components s ! i))"
    "components (step (SetVolume i v) s) =
       (components s)[i := (components s ! i)\<lparr>options := (options (components s ! i))\<lparr>volume := v\<rparr>\<rparr>]"
  using assms by (simp_all add: step_def target_def at_component_def Let_def update_options_def)

text \<open>
  C9. In every reachable state a volume update writes the new volume, 0 included, to the
  output gain node and to nothing else: every other node of the heap, the pre-gain node and
  the filter bands among them, the connections, the context and the side table are as
  before, and so are the pre-gain and band-gain settings of the component.
\<close>

theorem volume_update_only_sets_output_gain:
  assumes "i < length (components (run evs (start h)))"
  shows "(\<forall>g. gainRef (refs (components (run evs (start h)) ! i)) = Some g \<longrightarrow>
            heap (effect_volume v (world (run evs (start h)), refs (components (run evs (start h)) ! i))) ! g
              = GainNode v) \<and>
         (\<forall>n. gainRef (refs (components (run evs (start h)) ! i)) \<noteq> Some n \<longrightarrow>
            heap (effect_volume v (world (run evs (start h)), refs (components (run evs (start h)) ! i))) ! n
              = heap (world (run evs (start h))) ! n) \<and>
         (\<forall>p. preGainRef (refs (components (run evs (start h)) ! i)) = Some p \<longrightarrow>
            heap (effect_volume v (world (run evs (start h)), refs (components (run evs (start h)) ! i))) ! p
              = heap (world (run evs (start h))) ! p) \<and>
         (\<forall>q \<in> set (eqNodesRef (refs (components (run evs (start h)) ! i))).
            heap (effect_volume v (world (run evs (start h)), refs (components (run evs (start h)) ! i))) ! q
              = heap (world (run evs (start h))) ! q) \<and>
         length (heap (effect_volume v (world (run evs (start h)), refs (components (run evs (start h)) ! i))))
           = length (heap (world (run evs (start h)))) \<and>
         edges (effect_volume v (world (run evs (start h)), refs (components (run evs (start h)) ! i)))
           = edges (world (run evs (start h))) \<and>
         (volume (options (components (run evs (start h)) ! i)) \<noteq> v \<longrightarrow>
            world (step (SetVolume i v) (run evs (start h))) =
              effect_volume v (world (run evs (start h)), refs (components (run evs (start h)) ! i)) \<and>
            eqPreGain (options (components (step (SetVolume i v) (run evs (start h))) ! i)) =
              eqPreGain (options (components (run evs (start h)) ! i)) \<and>
            eqGains (options (components (step (SetVolume i v) (run evs (start h))) ! i)) =
              eqGains (options (components (run evs (start h)) ! i)))"
proof -
  let ?s = "run evs (start h)"
  have "sys_ok ?s" by (rule sys_ok_run)
  then have r: "refs_ok (world ?s) (refs (components ?s ! i))"
    using assms by (simp add: sys_ok_def)
  show ?thesis
    using effect_volume_heap [OF r, of v] step_SetVolume [OF assms, of v] assms
    by simp
qed

lemma constructed_components:
  "components (run [Mount (Some 0), CallEnsureGraph 0] (start StartsRunning)) =
     [\<lparr>refs = \<lparr>audioRef = Some 0, audioCtxRef = Some 0, srcNodeRef = Some 1, gainRef = Some 2,
               preGainRef = Some 3, eqNodesRef = [4 ..< 35], analyserRef = Some 35\<rparr>,
       options = initial_options, errMsg = [], paused = True\<rparr>]"
  by (simp add: schedule_eval graph_eval)

theorem volume_update_only_sets_output_gain_witness:
  "0 < length (components (run [Mount (Some 0), CallEnsureGraph 0] (start StartsRunning))) \<and>
   gainRef (refs (components (run [Mount (Some 0), CallEnsureGraph 0] (start StartsRunning)) ! 0)) = Some 2 \<and>
   preGainRef (refs (components (run [Mount (Some 0), CallEnsureGraph 0] (start StartsRunning)) ! 0)) = Some 3 \<and>
   4 \<in> set (eqNodesRef (refs (components (run [Mount (Some 0), CallEnsureGraph 0] (start StartsRunning)) ! 0))) \<and>
   volume (options (components (run [Mount (Some 0), CallEnsureGraph 0] (start StartsRunning)) ! 0)) \<noteq> 0 \<and>
   heap (world (step (SetVolume 0 0) (run [Mount (Some 0), CallEnsureGraph 0] (start StartsRunning)))) ! 2
     = GainNode 0 \<and>
   heap (world (step (SetVolume 0 0) (run [Mount (Some 0), CallEnsureGraph 0] (start StartsRunning)))) ! 3
     = heap (world (run [Mount (Some 0), CallEnsureGraph 0] (start StartsRunning))) ! 3 \<and>
   heap (world (step (SetVolume 0 0) (run [Mount (Some 0), CallEnsureGraph 0] (start StartsRunning)))) ! 4
     = heap (world (run [Mount (Some 0), CallEnsureGraph 0] (start StartsRunning))) ! 4"
proof -
  let ?s = "run [Mount (Some 0), CallEnsureGraph 0] (start StartsRunning)"
  have i: "0 < length (components ?s)"
    by (simp add: constructed_components)
  have v: "volume (options (components ?s ! 0)) \<noteq> 0"
    by (simp add: constructed_components initial_options_def)
  show ?thesis
    using volume_update_only_sets_output_gain [OF i, of 0] v
    by (simp add: constructed_components)
qed

section \<open>The filter bands\<close>

lemma forEach_eq_gain_other:
  "n \<notin> set eqs \<Longrightarrow> heap (forEach_eq_gain eqs i gs e) ! n = heap e ! n"
  by (induction eqs i gs e rule: forEach_eq_gain.induct) (simp_all add: heap_set_gain_value)

lemma forEach_eq_gain_nth:
  "distinct eqs \<Longrightarrow> j < length eqs \<Longrightarrow> eqs ! j < length (heap e) \<Longrightarrow>
   heap (forEach_eq_gain eqs i gs e) ! (eqs ! j) = with_gain (gain_or_zero gs (i + j)) (heap e ! (eqs ! j))"
proof (induction eqs arbitrary: i j e)
  case Nil
  then show ?case by simp
next
  case (Cons q qs)
  show ?case
  proof (cases j)
    case 0
    then show ?thesis
      using Cons.prems by (simp add: forEach_eq_gain_other heap_set_gain_value)
  next
    case (Suc k)
    then have k: "k < length qs" "qs ! k \<noteq> q" "qs ! k < length (heap e)"
      using Cons.prems by auto
    then have "heap (forEach_eq_gain qs (Suc i) gs (set_gain_value q (gain_or_zero gs i) e)) ! (qs ! k) =
        with_gain (gain_or_zero gs (Suc i + k)) (heap (set_gain_value q (gain_or_zero gs i) e) ! (qs ! k))"
      using Cons.prems by (intro Cons.IH) simp_all
    then show ?thesis
      using k Suc by (simp add: heap_set_gain_value)
  qed
qed

lemma gain_or_zero_handleGainChange: "gain_or_zero (handleGainChange k g gs) k = g"
  by (simp add: gain_or_zero_def handleGainChange_def nth_append)

lemma step_HandleGainChange:
  assumes "i < length (components s)"
  shows "world (step (HandleGainChange i k g) s) =
           effect_eqGains (handleGainChange k g (eqGains (options (components s ! i))))
             (world s, refs (components s ! i))"
    "refs (components (step (HandleGainChange i k g) s) ! i) = refs (components s ! i)"
    "eqGains (options (components (step (HandleGainChange i k g) s) ! i)) =
       handleGainChange k g (eqGains (options (components s ! i)))"
  using assms by (simp_all add: step_def target_def at_component_def Let_def update_options_def)

lemma refs_ok_band:
  assumes "refs_ok e m" "k < length (eqNodesRef m)"
  shows "eqNodesRef m ! k < length (heap e)"
    "\<exists>g. heap e ! (eqNodesRef m ! k) = BiquadFilterNode ''peaking'' (EQ_FREQUENCIES ! k) 4.31 g"
proof -
  have b: "eqNodesRef m ! k < length (heap e)"
    "statics e ! (eqNodesRef m ! k) = SBiquad ''peaking'' (EQ_FREQUENCIES ! k) 4.31"
    using assms by (simp_all add: refs_ok_def)
  then show "eqNodesRef m ! k < length (heap e)"
    "\<exists>g. heap e ! (eqNodesRef m ! k) = BiquadFilterNode ''peaking'' (EQ_FREQUENCIES ! k) 4.31 g"
    by (simp_all add: statics_def static_biquad_iff)
qed

lemma length_EQ_FREQUENCIES: "length EQ_FREQUENCIES = 31"
  by (simp add: EQ_FREQUENCIES_def)

text \<open>
  C7. Once the bands exist, setting the gain of band \<open>k\<close> (0 to 30) to \<open>g\<close> through
  \<open>handleGainChange\<close> makes \<open>gain.value\<close> of filter band \<open>k\<close> read \<open>g\<close>; the node stays the
  peaking filter of the \<open>k\<close>-th table frequency. This holds for every \<open>g\<close>, so for every
  \<open>g\<close> from -15 to 15.
\<close>

theorem band_gain_round_trip:
  assumes "i < length (components (run evs (start h)))"
    and "eqNodesRef (refs (components (run evs (start h)) ! i)) \<noteq> []"
    and "k \<le> 30"
  shows "heap (world (step (HandleGainChange i k g) (run evs (start h)))) !
           (eqNodesRef (refs (components (step (HandleGainChange i k g) (run evs (start h))) ! i)) ! k) =
           BiquadFilterNode ''peaking'' (EQ_FREQUENCIES ! k) 4.31 g \<and>
         gain_value_of (heap (world (step (HandleGainChange i k g) (run evs (start h)))) !
           (eqNodesRef (refs (components (step (HandleGainChange i k g) (run evs (start h))) ! i)) ! k)) =
           Some g"
proof -
  let ?s = "run evs (start h)"
  let ?m = "refs (components ?s ! i)"
  let ?gs = "handleGainChange k g (eqGains (options (components ?s ! i)))"
  have "sys_ok ?s" by (rule sys_ok_run)
  then have r: "refs_ok (world ?s) ?m"
    using assms(1) by (simp add: sys_ok_def)
  then have len: "length (eqNodesRef ?m) = 31" and d: "distinct (eqNodesRef ?m)"
    using assms(2) by (simp_all add: refs_ok_def length_EQ_FREQUENCIES)
  then have k: "k < length (eqNodesRef ?m)"
    using assms(3) by simp
  note b = refs_ok_band [OF r k]
  obtain g0 where g0: "heap (world ?s) ! (eqNodesRef ?m ! k) =
      BiquadFilterNode ''peaking'' (EQ_FREQUENCIES ! k) 4.31 g0"
    using b(2) by blast
  have "heap (forEach_eq_gain (eqNodesRef ?m) 0 ?gs (world ?s)) ! (eqNodesRef ?m ! k) =
      with_gain (gain_or_zero ?gs (0 + k)) (heap (world ?s) ! (eqNodesRef ?m ! k))"
    using d k b(1) by (rule forEach_eq_gain_nth)
  then have "heap (effect_eqGains ?gs (world ?s, ?m)) ! (eqNodesRef ?m ! k) =
      BiquadFilterNode ''peaking'' (EQ_FREQUENCIES ! k) 4.31 g"
    by (simp add: effect_eqGains_def g0 gain_or_zero_handleGainChange)
  then show ?thesis
    by (simp add: step_HandleGainChange [OF assms(1)])
qed

theorem band_gain_round_trip_witness:
  "0 < length (components (run [Mount (Some 0), CallEnsureGraph 0] (start StartsRunning))) \<and>
   eqNodesRef (refs (components (run [Mount (Some 0), CallEnsureGraph 0] (start StartsRunning)) ! 0)) \<noteq> [] \<and>
   (30::nat) \<le> 30 \<and>
   gain_value_of (heap (world (step (HandleGainChange 0 30 (-15))
       (run [Mount (Some 0), CallEnsureGraph 0] (start StartsRunning)))) !
     (eqNodesRef (refs (components (step (HandleGainChange 0 30 (-15))
       (run [Mount (Some 0), CallEnsureGraph 0] (start StartsRunning))) ! 0)) ! 30)) = Some (-15)"
proof -
  let ?s = "run [Mount (Some 0), CallEnsureGraph 0] (start StartsRunning)"
  have i: "0 < length (components ?s)" and c: "eqNodesRef (refs (components ?s ! 0)) \<noteq> []"
    by (simp_all add: constructed_components)
  show ?thesis
    using band_gain_round_trip [OF i c, of 30 "-15"] i c by simp
qed

section \<open>What a call creates and what it keeps\<close>

lemma allocs_nth: "allocs e e' \<Longrightarrow> n < length (heap e) \<Longrightarrow> heap e' ! n = heap e ! n"
  by (auto simp: allocs_def nth_append)

lemma allocs_length: "allocs e e' \<Longrightarrow> length (heap e) \<le> length (heap e')"
  by (auto simp: allocs_def)

lemma ensure_gain_fresh:
  assumes "ensure_gain opts (e, m) = (g, e', m')"
  shows "gainRef m = None \<Longrightarrow> g = length (heap e) \<and> g < length (heap e') \<and> heap e' ! g = GainNode (volume opts)"
    and "gainRef m = Some x \<Longrightarrow> g = x"
  using assms by (auto simp: ensure_gain_eq)

lemma ensure_preGain_fresh:
  assumes "ensure_preGain opts (e, m) = (g, e', m')"
  shows "preGainRef m = None \<Longrightarrow>
      g = length (heap e) \<and> g < length (heap e') \<and> heap e' ! g = GainNode (eqPreGain opts)"
    and "preGainRef m = Some x \<Longrightarrow> g = x"
  using assms by (auto simp: ensure_preGain_eq)

lemma ensure_analyser_fresh:
  assumes "ensure_analyser opts (e, m) = (g, e', m')"
  shows "analyserRef m = None \<Longrightarrow>
      g = length (heap e) \<and> g < length (heap e') \<and>
      heap e' ! g = AnalyserNode (fftSize opts) (smoothing opts)"
    and "analyserRef m = Some x \<Longrightarrow> g = x"
  using assms by (auto simp: ensure_analyser_eq)

lemma ensure_eqNodes_fresh:
  assumes "ensure_eqNodes opts (e, m) = (e', m')"
  shows "eqNodesRef m = [] \<Longrightarrow> k < length EQ_FREQUENCIES \<Longrightarrow>
      eqNodesRef m' ! k = length (heap e) + k \<and> eqNodesRef m' ! k < length (heap e') \<and>
      heap e' ! (eqNodesRef m' ! k) =
        BiquadFilterNode ''peaking'' (EQ_FREQUENCIES ! k) 4.31 (gain_or_zero (eqGains opts) k)"
    and "eqNodesRef m \<noteq> [] \<Longrightarrow> eqNodesRef m' = eqNodesRef m"
  using assms by (auto simp: ensure_eqNodes_eq nth_append nth_eq_band_nodes)

lemma ensureGraph_resumed_created:
  assumes ok: "env_ok e" and ctx: "GLOBAL_AUDIO_CTX e = Some ctx"
    and run: "ensureGraph_resumed el opts (e, m) = (out, e', m')"
  shows "created_by opts (e, m) (e', m')"
proof -
  obtain src e1 where s1: "ensure_src el e = Inr (src, e1)"
    and h1: "\<exists>zs. heap e1 = heap e @ zs"
    using ensure_src_post [OF ok, of el] by blast
  define m1 where "m1 = m\<lparr>srcNodeRef := Some src\<rparr>"
  obtain g e2 m2 where s2: "ensure_gain opts (e1, m1) = (g, e2, m2)"
    by (metis prod_cases3)
  obtain pg e3 m3 where s3: "ensure_preGain opts (e2, m2) = (pg, e3, m3)"
    by (metis prod_cases3)
  obtain e4 m4 where s4: "ensure_eqNodes opts (e3, m3) = (e4, m4)"
    by (metis surj_pair)
  obtain an e5 m5 where s5: "ensure_analyser opts (e4, m4) = (an, e5, m5)"
    by (metis prod_cases3)
  note a2 = ensure_gain_allocs [OF s2] and a3 = ensure_preGain_allocs [OF s3]
    and a4 = ensure_eqNodes_allocs [OF s4] and a5 = ensure_analyser_allocs [OF s5]
  have a25: "allocs e2 e5" and a35: "allocs e3 e5" and a15: "allocs e1 e5"
    and a13: "allocs e1 e3" and a12: "allocs e1 e2" and a14: "allocs e1 e4"
    using a2 a3 a4 a5 by (blast intro: allocs_trans)+
  have m2: "m2 = m1\<lparr>gainRef := Some g\<rparr>" using s2 by (rule ensure_gain_manager)
  have m3: "m3 = m2\<lparr>preGainRef := Some pg\<rparr>" using s3 by (rule ensure_preGain_manager)
  have m4: "m4 = m3\<lparr>eqNodesRef := eqNodesRef m4\<rparr>" using s4 by (rule ensure_eqNodes_manager)
  have m5: "m5 = m4\<lparr>analyserRef := Some an\<rparr>" using s5 by (rule ensure_analyser_manager)
  have b1: "gainRef m1 = gainRef m"
    by (simp add: m1_def)
  have b2: "preGainRef m2 = preGainRef m"
    by (subst m2) (simp add: m1_def)
  have b3: "eqNodesRef m3 = eqNodesRef m"
    by (subst m3, subst m2) (simp add: m1_def)
  have b4: "analyserRef m4 = analyserRef m"
    by (subst m4, subst m3, subst m2) (simp add: m1_def)
  note before = b1 b2 b3 b4
  have after: "gainRef m5 = Some g" "preGainRef m5 = Some pg" "analyserRef m5 = Some an"
    "eqNodesRef m5 = eqNodesRef m4"
    by (subst m5, subst m4, subst m3, subst m2, simp add: m1_def m5 [symmetric])+
  have fin: "e' = rewire ([g, pg] @ eqNodesRef m5 @ [an, destination ctx]) (connect src g (disconnect src e5))"
    "m' = m5"
    using run unfolding ensureGraph_resumed_def
    by (auto simp add: ctx s1 m1_def [symmetric] s2 s3 s4 s5)
  have heap': "heap e' = heap e5"
    by (simp add: fin(1))
  have le1: "length (heap e) \<le> length (heap e1)"
    using h1 by auto
  have le: "length (heap e1) \<le> length (heap e2)" "length (heap e1) \<le> length (heap e3)"
    "length (heap e1) \<le> length (heap e4)"
    using a12 a13 a14 by (auto dest: allocs_length)
  have old: "heap e' ! n = heap e ! n" if "n < length (heap e)" for n
  proof -
    have "heap e1 ! n = heap e ! n"
      using h1 that by (auto simp: nth_append)
    moreover have "heap e5 ! n = heap e1 ! n"
      using a15 that le1 by (intro allocs_nth) simp_all
    ultimately show ?thesis by (simp add: heap')
  qed
  have gain: "case gainRef m of Some x \<Rightarrow> gainRef m' = Some x
      | None \<Rightarrow> (\<exists>g. gainRef m' = Some g \<and> length (heap e) \<le> g \<and> heap e' ! g = GainNode (volume opts))"
  proof (cases "gainRef m")
    case None
    then have f: "g = length (heap e1)" "g < length (heap e2)" "heap e2 ! g = GainNode (volume opts)"
      using ensure_gain_fresh(1) [OF s2] before by auto
    then have "heap e5 ! g = GainNode (volume opts)"
      using allocs_nth [OF a25, of g] by simp
    then show ?thesis
      using None f le1 by (simp add: fin(2) after heap')
  next
    case (Some x)
    then show ?thesis
      using ensure_gain_fresh(2) [OF s2, of x] before by (simp add: fin(2) after)
  qed
  have pre: "case preGainRef m of Some x \<Rightarrow> preGainRef m' = Some x
      | None \<Rightarrow> (\<exists>g. preGainRef m' = Some g \<and> length (heap e) \<le> g \<and>
          heap e' ! g = GainNode (eqPreGain opts))"
  proof (cases "preGainRef m")
    case None
    then have f: "pg = length (heap e2)" "pg < length (heap e3)" "heap e3 ! pg = GainNode (eqPreGain opts)"
      using ensure_preGain_fresh(1) [OF s3] before by auto
    then have "heap e5 ! pg = GainNode (eqPreGain opts)"
      using allocs_nth [OF a35, of pg] by simp
    then show ?thesis
      using None f le1 le by (simp add: fin(2) after heap')
  next
    case (Some x)
    then show ?thesis
      using ensure_preGain_fresh(2) [OF s3, of x] before by (simp add: fin(2) after)
  qed
  have ana: "case analyserRef m of Some x \<Rightarrow> analyserRef m' = Some x
      | None \<Rightarrow> (\<exists>g. analyserRef m' = Some g \<and> length (heap e) \<le> g \<and>
          heap e' ! g = AnalyserNode (fftSize opts) (smoothing opts))"
  proof (cases "analyserRef m")
    case None
    then have f: "an = length (heap e4)" "an < length (heap e5)"
        "heap e5 ! an = AnalyserNode (fftSize opts) (smoothing opts)"
      using ensure_analyser_fresh(1) [OF s5] before by auto
    then show ?thesis
      using None le1 le by (simp add: fin(2) after heap')
  next
    case (Some x)
    then show ?thesis
      using ensure_analyser_fresh(2) [OF s5, of x] before by (simp add: fin(2) after)
  qed
  have bands: "if eqNodesRef m = [] then
        length (eqNodesRef m') = length EQ_FREQUENCIES \<and>
        (\<forall>k < length EQ_FREQUENCIES.
           length (heap e) \<le> eqNodesRef m' ! k \<and>
           heap e' ! (eqNodesRef m' ! k) =
             BiquadFilterNode ''peaking'' (EQ_FREQUENCIES ! k) 4.31 (gain_or_zero (eqGains opts) k))
      else eqNodesRef m' = eqNodesRef m"
  proof (cases "eqNodesRef m = []")
    case True
    then have e3: "eqNodesRef m3 = []" using before by simp
    have len: "length (eqNodesRef m4) = length EQ_FREQUENCIES"
      using s4 e3 by (auto simp: ensure_eqNodes_eq)
    have "length (heap e) \<le> eqNodesRef m4 ! k \<and>
        heap e5 ! (eqNodesRef m4 ! k) =
          BiquadFilterNode ''peaking'' (EQ_FREQUENCIES ! k) 4.31 (gain_or_zero (eqGains opts) k)"
      if "k < length EQ_FREQUENCIES" for k
    proof -
      have f: "eqNodesRef m4 ! k = length (heap e3) + k" "eqNodesRef m4 ! k < length (heap e4)"
        "heap e4 ! (eqNodesRef m4 ! k) =
           BiquadFilterNode ''peaking'' (EQ_FREQUENCIES ! k) 4.31 (gain_or_zero (eqGains opts) k)"
        using ensure_eqNodes_fresh(1) [OF s4 e3 that] by auto
      have "heap e5 ! (eqNodesRef m4 ! k) = heap e4 ! (eqNodesRef m4 ! k)"
        using a5 f(2) by (rule allocs_nth)
      then show ?thesis
        using f le1 le by simp
    qed
    then show ?thesis
      using True len by (simp add: fin(2) after heap')
  next
    case False
    then have "eqNodesRef m3 \<noteq> []" using before by simp
    then show ?thesis
      using False ensure_eqNodes_fresh(2) [OF s4] before by (simp add: fin(2) after)
  qed
  show ?thesis
    unfolding created_by_def using old gain pre ana bands by simp
qed

lemma ensureGraph_keeps_bands:
  assumes "env_ok e" "ensureGraph opts (e, m) = (out, e', m')" "eqNodesRef m \<noteq> []"
  shows "eqNodesRef m' = eqNodesRef m"
proof (cases "audioRef m")
  case None
  then show ?thesis using assms(2) by (auto simp: ensureGraph_def)
next
  case (Some el)
  from ensure_context_post [OF assms(1)] show ?thesis
  proof (elim disjE exE conjE)
    assume "ensure_context e = Inl ContextUnavailable"
    then show ?thesis using assms(2) Some by (auto simp: ensureGraph_def)
  next
    fix ctx e1
    assume c: "ensure_context e = Inr (ctx, e1)" "env_ok e1" "GLOBAL_AUDIO_CTX e1 = Some ctx"
    let ?m1 = "m\<lparr>audioCtxRef := Some (ident ctx)\<rparr>"
    show ?thesis
    proof (cases "state ctx = Suspended")
      case True
      then show ?thesis using assms(2) Some c(1) by (auto simp: ensureGraph_def)
    next
      case False
      then have "ensureGraph_resumed el opts (e1, ?m1) = (out, e', m')"
        using assms(2) Some c(1) by (auto simp: ensureGraph_def)
      from ensureGraph_resumed_created [OF c(2,3) this] show ?thesis
        using assms(3) by (simp add: created_by_def)
    qed
  qed
qed

lemma settle_refs:
  "refs (components (settle j opts (out, e', m') s) ! i) =
     (if i = j \<and> j < length (components s) then m' else refs (components s ! i))"
  by (cases out) (auto simp: settle_def nth_list_update list_update_beyond)

lemma update_options_refs:
  "refs (components (update_options j f s) ! i) = refs (components s ! i)"
  by (cases "j < length (components s)")
    (auto simp: update_options_def nth_list_update list_update_beyond)

lemma update_options_world_refs:
  "refs (components (update_options j f (s\<lparr>world := e\<rparr>)) ! i) = refs (components s ! i)"
  using update_options_refs [of j f "s\<lparr>world := e\<rparr>" i] by simp

lemma at_component_keeps_bands:
  assumes "sys_ok s" "j < length (components s)" "target ev = Some j"
    "eqNodesRef (refs (components s ! i)) \<noteq> []" "ev \<noteq> Unmount i"
  shows "eqNodesRef (refs (components (at_component j ev s) ! i)) = eqNodesRef (refs (components s ! i))"
proof (cases ev)
  case (CallEnsureGraph x)
  let ?c = "components s ! j"
  obtain out e' m' where r: "ensureGraph (hook_options ?c) (world s, refs ?c) = (out, e', m')"
    by (metis prod_cases3)
  have e: "env_ok (world s)"
    using assms(1) by (simp add: sys_ok_def)
  have "i = j \<Longrightarrow> eqNodesRef m' = eqNodesRef (refs (components s ! i))"
    using ensureGraph_keeps_bands [OF e r] assms(4) by simp
  then show ?thesis
    by (simp add: at_component_def Let_def CallEnsureGraph r settle_refs)
next
  case (Unmount x)
  then have "x = j" "j \<noteq> i"
    using assms(3,5) by (auto simp: target_def)
  then show ?thesis
    using assms(2)
    by (simp add: at_component_def Let_def Unmount split: prod.splits)
qed (simp_all add: at_component_def Let_def update_options_refs update_options_world_refs)

lemma step_keeps_bands:
  assumes "sys_ok s" "i < length (components s)" "eqNodesRef (refs (components s ! i)) \<noteq> []"
    "ev \<noteq> Unmount i"
  shows "eqNodesRef (refs (components (step ev s) ! i)) = eqNodesRef (refs (components s ! i))"
proof (cases "target ev")
  case (Some j)
  then have st: "step ev s = (if j < length (components s) then at_component j ev s else s)"
    by (cases ev) (simp_all add: step_def target_def)
  show ?thesis
    using at_component_keeps_bands [OF assms(1) _ Some assms(3,4)] by (simp add: st)
next
  case None
  then consider el where "ev = Mount el" | k where "ev = ResumeDone k" | k where "ev = ResumeFail k"
    | "ev = HostSuspend"
    by (cases ev) (simp_all add: target_def)
  then show ?thesis
  proof cases
    case 1
    then show ?thesis using assms(2) by (simp add: step_def nth_append)
  next
    case 2
    show ?thesis
    proof (cases "k < length (pending s)")
      case False
      then show ?thesis by (simp add: 2 step_def resume_done_def)
    next
      case True
      obtain j el opts where p: "pending s ! k = (j, el, opts)"
        by (metis prod_cases3)
      obtain ctx where ctx: "GLOBAL_AUDIO_CTX (world s) = Some ctx"
        using assms(1) True by (auto simp: sys_ok_def)
      have rc: "GLOBAL_AUDIO_CTX (resume (world s)) = Some (ctx\<lparr>state := Running\<rparr>)"
        by (simp add: resume_ctx ctx)
      have e: "env_ok (resume (world s))"
        using assms(1) by (simp add: sys_ok_def env_ok_resume)
      obtain out e' m' where
        r: "ensureGraph_resumed el opts (resume (world s), refs (components s ! j)) = (out, e', m')"
        by (metis prod_cases3)
      have "i = j \<Longrightarrow> eqNodesRef m' = eqNodesRef (refs (components s ! i))"
        using ensureGraph_resumed_created [OF e rc r] assms(3) by (simp add: created_by_def)
      then show ?thesis
        using True by (simp add: 2 step_def resume_done_def p r settle_refs drop_pending_def)
    qed
  next
    case 3
    then show ?thesis by (simp add: step_def resume_fail_def drop_pending_def)
  next
    case 4
    then show ?thesis by (simp add: step_def)
  qed
qed

lemma EQ_FREQUENCIES_table:
  "length EQ_FREQUENCIES = 31" "sorted_wrt (<) EQ_FREQUENCIES"
  "hd EQ_FREQUENCIES = 20" "last EQ_FREQUENCIES = 20000"
  by (simp_all add: EQ_FREQUENCIES_def)

text \<open>
  C8. The table has 31 centre frequencies, strictly increasing from 20 Hz to 20 kHz. In
  every reachable state a hook instance has either no filter band or all 31, pairwise
  different nodes, band \<open>k\<close> a peaking filter at the \<open>k\<close>-th table frequency with quality
  factor 4.31. Once the bands exist, no event other than the unmount of that instance
  replaces them: the same nodes stay, so only their gain can have changed.
\<close>

theorem filter_bands_created_once:
  assumes "i < length (components (run evs (start h)))"
  shows "length EQ_FREQUENCIES = 31 \<and> sorted_wrt (<) EQ_FREQUENCIES \<and>
         hd EQ_FREQUENCIES = 20 \<and> last EQ_FREQUENCIES = 20000 \<and>
         (eqNodesRef (refs (components (run evs (start h)) ! i)) = [] \<or>
          length (eqNodesRef (refs (components (run evs (start h)) ! i))) = 31 \<and>
          distinct (eqNodesRef (refs (components (run evs (start h)) ! i))) \<and>
          (\<forall>k < 31. \<exists>g.
             heap (world (run evs (start h))) ! (eqNodesRef (refs (components (run evs (start h)) ! i)) ! k) =
               BiquadFilterNode ''peaking'' (EQ_FREQUENCIES ! k) 4.31 g)) \<and>
         (\<forall>ev. eqNodesRef (refs (components (run evs (start h)) ! i)) \<noteq> [] \<longrightarrow> ev \<noteq> Unmount i \<longrightarrow>
            eqNodesRef (refs (components (step ev (run evs (start h))) ! i)) =
              eqNodesRef (refs (components (run evs (start h)) ! i)))"
proof -
  let ?s = "run evs (start h)"
  let ?m = "refs (components ?s ! i)"
  have ok: "sys_ok ?s" by (rule sys_ok_run)
  then have r: "refs_ok (world ?s) ?m"
    using assms by (simp add: sys_ok_def)
  have bands: "eqNodesRef ?m = [] \<or>
      length (eqNodesRef ?m) = 31 \<and> distinct (eqNodesRef ?m) \<and>
      (\<forall>k < 31. \<exists>g. heap (world ?s) ! (eqNodesRef ?m ! k) =
         BiquadFilterNode ''peaking'' (EQ_FREQUENCIES ! k) 4.31 g)"
  proof (cases "eqNodesRef ?m = []")
    case True
    then show ?thesis by simp
  next
    case False
    then have len: "length (eqNodesRef ?m) = 31" and d: "distinct (eqNodesRef ?m)"
      using r by (simp_all add: refs_ok_def EQ_FREQUENCIES_table)
    then show ?thesis
      using refs_ok_band(2) [OF r] by simp
  qed
  show ?thesis
    using bands step_keeps_bands [OF ok assms] by (simp add: EQ_FREQUENCIES_table)
qed

theorem filter_bands_created_once_witness:
  "0 < length (components (run [Mount (Some 0), CallEnsureGraph 0] (start StartsRunning))) \<and>
   eqNodesRef (refs (components (run [Mount (Some 0), CallEnsureGraph 0] (start StartsRunning)) ! 0)) \<noteq> [] \<and>
   CallEnsureGraph 0 \<noteq> Unmount 0 \<and>
   eqNodesRef (refs (components (step (CallEnsureGraph 0)
     (run [Mount (Some 0), CallEnsureGraph 0] (start StartsRunning))) ! 0)) = [4 ..< 35] \<and>
   (\<exists>g. heap (world (run [Mount (Some 0), CallEnsureGraph 0] (start StartsRunning))) ! 34 =
      BiquadFilterNode ''peaking'' 20000 4.31 g)"
proof -
  let ?s = "run [Mount (Some 0), CallEnsureGraph 0] (start StartsRunning)"
  let ?m = "refs (components ?s ! 0)"
  have i: "0 < length (components ?s)" and c: "eqNodesRef ?m = [4 ..< 35]"
    by (simp_all add: constructed_components)
  have ne: "eqNodesRef ?m \<noteq> []"
    by (simp add: c)
  note T = filter_bands_created_once [OF i]
  from T ne have "\<forall>k < 31. \<exists>g. heap (world ?s) ! (eqNodesRef ?m ! k) =
      BiquadFilterNode ''peaking'' (EQ_FREQUENCIES ! k) 4.31 g"
    by blast
  then have "\<exists>g. heap (world ?s) ! (eqNodesRef ?m ! 30) =
      BiquadFilterNode ''peaking'' (EQ_FREQUENCIES ! 30) 4.31 g"
    by simp
  then have last: "\<exists>g. heap (world ?s) ! 34 = BiquadFilterNode ''peaking'' 20000 4.31 g"
    by (simp add: c EQ_FREQUENCIES_def)
  from T ne have "eqNodesRef (refs (components (step (CallEnsureGraph 0) ?s) ! 0)) = eqNodesRef ?m"
    by blast
  then show ?thesis
    using i ne last by (simp add: c)
qed

section \<open>Unmounting\<close>

lemma cleanup_out_edges:
  "out_edges (fst (cleanup (e, m))) n = (if n \<in> set (own_nodes m) then [] else out_edges e n)"
  by (auto simp: cleanup_eq own_nodes_def split: option.splits)

lemma own_nodes_live:
  assumes "refs_ok e m" "n \<in> set (own_nodes m)"
  shows "n < length (heap e)"
proof -
  have "q < length (heap e)" if "q \<in> set (eqNodesRef m)" for q
    using assms(1) that by (auto simp: refs_ok_def in_set_conv_nth)
  then show ?thesis
    using assms by (auto simp: own_nodes_def refs_ok_def split: option.splits)
qed

lemma created_by_same_heap:
  assumes "created_by opts (e1, m1) (e', m')" "heap e1 = heap e" "gainRef m1 = gainRef m"
    "preGainRef m1 = preGainRef m" "analyserRef m1 = analyserRef m" "eqNodesRef m1 = eqNodesRef m"
  shows "created_by opts (e, m) (e', m')"
  using assms(1) unfolding created_by_def prod.case assms(2-6) .

lemma ensureGraph_complete_with_context:
  assumes ok: "env_ok e" "refs_ok e m" and ctx: "GLOBAL_AUDIO_CTX e = Some ctx"
    and el: "audioRef m = Some el"
    and run: "ensureGraph_complete opts (e, m) = (out, e', m')"
  shows "out = Fulfilled \<and> graph_wired e' m' \<and> created_by opts (e, m) (e', m') \<and>
         contexts_created e' = contexts_created e \<and>
         (\<exists>ctx'. GLOBAL_AUDIO_CTX e' = Some ctx' \<and> ident ctx' = ident ctx \<and>
            destination ctx' = destination ctx \<and> state ctx' \<noteq> Closed) \<and>
         (\<exists>src. MEDIA_SRC e' = (MEDIA_SRC e)(el \<mapsto> src) \<and> srcNodeRef m' = Some src \<and>
            (case MEDIA_SRC e el of Some n \<Rightarrow> src = n | None \<Rightarrow> src = length (heap e)))"
proof -
  let ?m1 = "m\<lparr>audioCtxRef := Some (ident ctx)\<rparr>"
  have c: "ensure_context e = Inr (ctx, e)"
    by (simp add: ensure_context_def ctx)
  have r1: "refs_ok e ?m1" "refs_ok (resume e) ?m1"
    using ok(2) refs_ok_cong [of "resume e" e ?m1] by simp_all
  define e1 where "e1 = (if state ctx = Suspended then resume e else e)"
  define ctx1 where "ctx1 = (if state ctx = Suspended then ctx\<lparr>state := Running\<rparr> else ctx)"
  have res: "ensureGraph_resumed el opts (e1, ?m1) = (out, e', m')"
  proof (cases "state ctx = Suspended")
    case True
    then show ?thesis
      using run by (simp add: ensureGraph_complete_def ensureGraph_def el c e1_def)
  next
    case False
    obtain out0 e0 m0 where r0: "ensureGraph_resumed el opts (e, ?m1) = (out0, e0, m0)"
      by (metis prod_cases3)
    have "out0 = Fulfilled"
      using ensureGraph_resumed_post [OF ok(1) r1(1) ctx r0] by simp
    then show ?thesis
      using run False r0 by (simp add: ensureGraph_complete_def ensureGraph_def el c e1_def)
  qed
  have e1: "env_ok e1" "refs_ok e1 ?m1" "GLOBAL_AUDIO_CTX e1 = Some ctx1" "heap e1 = heap e"
    "MEDIA_SRC e1 = MEDIA_SRC e" "contexts_created e1 = contexts_created e"
    using ok(1) r1 by (simp_all add: e1_def ctx1_def env_ok_resume resume_ctx ctx)
  have c1: "ident ctx1 = ident ctx" "destination ctx1 = destination ctx"
    by (simp_all add: ctx1_def)
  note post = ensureGraph_resumed_post [OF e1(1,2,3) res]
  have cr: "created_by opts (e, m) (e', m')"
    using ensureGraph_resumed_created [OF e1(1,3) res] e1(4)
    by (rule created_by_same_heap) simp_all
  have "env_ok e'"
    using post by simp
  then have "state ctx' \<noteq> Closed" if "GLOBAL_AUDIO_CTX e' = Some ctx'" for ctx'
    using that unfolding env_ok_def by blast
  then show ?thesis
    using post cr c1 e1(4,5,6) by (auto simp: graph_wired_def split: option.splits)
qed

lemma created_by_cleared:
  assumes "created_by opts (e, cleared m) (e', m')"
  shows "(\<exists>g pg an. gainRef m' = Some g \<and> preGainRef m' = Some pg \<and> analyserRef m' = Some an \<and>
            length (heap e) \<le> g \<and> length (heap e) \<le> pg \<and> length (heap e) \<le> an) \<and>
         length (eqNodesRef m') = 31 \<and> (\<forall>q \<in> set (eqNodesRef m'). length (heap e) \<le> q)"
proof -
  have len: "length (eqNodesRef m') = length EQ_FREQUENCIES"
    and bands: "\<forall>k < length EQ_FREQUENCIES. length (heap e) \<le> eqNodesRef m' ! k"
    using assms by (simp_all add: created_by_def cleared_def)
  then have "\<forall>q \<in> set (eqNodesRef m'). length (heap e) \<le> q"
    by (auto simp: in_set_conv_nth)
  then show ?thesis
    using assms len by (auto simp: created_by_def cleared_def EQ_FREQUENCIES_table)
qed

text \<open>
  C5. In every reachable state unmounting a hook instance runs its cleanup, which clears that
  instance's node refs and removes the outgoing connections of exactly the nodes they
  pointed to; the heap, the context (still open, none created or closed) and the side table
  are untouched. A later \<open>ensureGraph\<close> for an element that was bound before keeps the same
  context and the same source node, and its gain, pre-gain, band and analyser nodes are all
  new: they did not exist in the heap before, where all the old ones lived.
\<close>

theorem unmount_keeps_context_and_binding:
  fixes evs h i
  defines "s \<equiv> run evs (start h)"
  defines "m \<equiv> refs (components s ! i)"
  assumes "i < length (components s)"
  shows "world (step (Unmount i) s) = fst (cleanup (world s, m)) \<and>
         refs (components (step (Unmount i) s) ! i) = snd (cleanup (world s, m)) \<and>
         snd (cleanup (world s, m)) =
           m\<lparr>srcNodeRef := None, gainRef := None, preGainRef := None, eqNodesRef := [],
             analyserRef := None\<rparr> \<and>
         GLOBAL_AUDIO_CTX (fst (cleanup (world s, m))) = GLOBAL_AUDIO_CTX (world s) \<and>
         (\<forall>ctx. GLOBAL_AUDIO_CTX (world s) = Some ctx \<longrightarrow> state ctx \<noteq> Closed) \<and>
         contexts_created (fst (cleanup (world s, m))) = contexts_created (world s) \<and>
         MEDIA_SRC (fst (cleanup (world s, m))) = MEDIA_SRC (world s) \<and>
         heap (fst (cleanup (world s, m))) = heap (world s) \<and>
         (\<forall>n. out_edges (fst (cleanup (world s, m))) n =
            (if n \<in> set (own_nodes m) then [] else out_edges (world s) n)) \<and>
         (\<forall>n \<in> set (own_nodes m). n < length (heap (world s))) \<and>
         (\<forall>el src ctx opts out e2 m2.
            audioRef m = Some el \<longrightarrow> MEDIA_SRC (world s) el = Some src \<longrightarrow>
            GLOBAL_AUDIO_CTX (world s) = Some ctx \<longrightarrow>
            ensureGraph_complete opts (cleanup (world s, m)) = (out, e2, m2) \<longrightarrow>
            out = Fulfilled \<and> contexts_created e2 = contexts_created (world s) \<and>
            (\<exists>ctx'. GLOBAL_AUDIO_CTX e2 = Some ctx' \<and> ident ctx' = ident ctx \<and>
               destination ctx' = destination ctx \<and> state ctx' \<noteq> Closed) \<and>
            MEDIA_SRC e2 = MEDIA_SRC (world s) \<and> srcNodeRef m2 = Some src \<and>
            (\<exists>g pg an. gainRef m2 = Some g \<and> preGainRef m2 = Some pg \<and> analyserRef m2 = Some an \<and>
               length (heap (world s)) \<le> g \<and> length (heap (world s)) \<le> pg \<and>
               length (heap (world s)) \<le> an) \<and>
            length (eqNodesRef m2) = 31 \<and>
            (\<forall>q \<in> set (eqNodesRef m2). length (heap (world s)) \<le> q))"
proof -
  have ok: "sys_ok s" unfolding s_def by (rule sys_ok_run)
  then have e: "env_ok (world s)" and r: "refs_ok (world s) m"
    using assms(3) by (simp_all add: sys_ok_def m_def)
  obtain e1 m1 where cl: "cleanup (world s, m) = (e1, m1)"
    by (metis surj_pair)
  note p = cleanup_post [OF cl]
  have e1: "env_ok e1"
    using e env_ok_cong [OF p(1,2,3,4)] by simp
  have r1: "refs_ok e1 (cleared m)"
    by simp
  have first: "m1 = m\<lparr>srcNodeRef := None, gainRef := None, preGainRef := None, eqNodesRef := [],
      analyserRef := None\<rparr>"
    by (simp add: p(7) cleared_def)
  have "open": "\<forall>ctx. GLOBAL_AUDIO_CTX (world s) = Some ctx \<longrightarrow> state ctx \<noteq> Closed"
    using e by (simp add: env_ok_def)
  have edges: "\<forall>n. out_edges e1 n = (if n \<in> set (own_nodes m) then [] else out_edges (world s) n)"
    using cleanup_out_edges [of "world s" m] by (simp add: cl)
  have live: "\<forall>n \<in> set (own_nodes m). n < length (heap (world s))"
    using own_nodes_live [OF r] by blast
  have again: "out = Fulfilled \<and> contexts_created e2 = contexts_created (world s) \<and>
      (\<exists>ctx'. GLOBAL_AUDIO_CTX e2 = Some ctx' \<and> ident ctx' = ident ctx \<and>
         destination ctx' = destination ctx \<and> state ctx' \<noteq> Closed) \<and>
      MEDIA_SRC e2 = MEDIA_SRC (world s) \<and> srcNodeRef m2 = Some src \<and>
      (\<exists>g pg an. gainRef m2 = Some g \<and> preGainRef m2 = Some pg \<and> analyserRef m2 = Some an \<and>
         length (heap (world s)) \<le> g \<and> length (heap (world s)) \<le> pg \<and>
         length (heap (world s)) \<le> an) \<and>
      length (eqNodesRef m2) = 31 \<and>
      (\<forall>q \<in> set (eqNodesRef m2). length (heap (world s)) \<le> q)"
    if h: "audioRef m = Some el" "MEDIA_SRC (world s) el = Some src"
      "GLOBAL_AUDIO_CTX (world s) = Some ctx" "ensureGraph_complete opts (e1, m1) = (out, e2, m2)"
    for el src ctx opts out e2 m2
  proof -
    have c1: "GLOBAL_AUDIO_CTX e1 = Some ctx" and a1: "audioRef (cleared m) = Some el"
      using h(1,3) by (simp_all add: p(3) cleared_def)
    have run: "ensureGraph_complete opts (e1, cleared m) = (out, e2, m2)"
      using h(4) by (simp add: p(7))
    note w = ensureGraph_complete_with_context [OF e1 r1 c1 a1 run]
    have "(MEDIA_SRC (world s))(el \<mapsto> src) = MEDIA_SRC (world s)"
      using h(2) by auto
    then have "MEDIA_SRC e2 = MEDIA_SRC (world s) \<and> srcNodeRef m2 = Some src"
      using w h(2) by (auto simp: p(2))
    moreover have "created_by opts (e1, cleared m) (e2, m2)"
      using w by simp
    ultimately show ?thesis
      using w created_by_cleared [of opts e1 m e2 m2] by (simp add: p(4,6))
  qed
  have unmount: "world (step (Unmount i) s) = e1" "refs (components (step (Unmount i) s) ! i) = m1"
    using assms(3) by (simp_all add: step_def target_def at_component_def Let_def m_def [symmetric] cl)
  show ?thesis
    using unmount first "open" edges live again p(2,3,4,6) unfolding cl by simp
qed

lemma constructed_world:
  "MEDIA_SRC (world (run [Mount (Some 0), CallEnsureGraph 0] (start StartsRunning))) 0 = Some 1"
  "GLOBAL_AUDIO_CTX (world (run [Mount (Some 0), CallEnsureGraph 0] (start StartsRunning))) =
     Some \<lparr>ident = 0, state = Running, destination = 0\<rparr>"
  "length (heap (world (run [Mount (Some 0), CallEnsureGraph 0] (start StartsRunning)))) = 36"
  by (simp_all add: schedule_eval graph_eval)

theorem unmount_keeps_context_and_binding_witness:
  "0 < length (components (run [Mount (Some 0), CallEnsureGraph 0] (start StartsRunning))) \<and>
   audioRef (refs (components (run [Mount (Some 0), CallEnsureGraph 0] (start StartsRunning)) ! 0)) = Some 0 \<and>
   MEDIA_SRC (world (run [Mount (Some 0), CallEnsureGraph 0] (start StartsRunning))) 0 = Some 1 \<and>
   GLOBAL_AUDIO_CTX (world (run [Mount (Some 0), CallEnsureGraph 0] (start StartsRunning))) =
     Some \<lparr>ident = 0, state = Running, destination = 0\<rparr> \<and>
   gainRef (snd (cleanup (world (run [Mount (Some 0), CallEnsureGraph 0] (start StartsRunning)),
     refs (components (run [Mount (Some 0), CallEnsureGraph 0] (start StartsRunning)) ! 0)))) = None \<and>
   fst (ensureGraph_complete (hook_options (mount (Some 0)))
     (cleanup (world (run [Mount (Some 0), CallEnsureGraph 0] (start StartsRunning)),
       refs (components (run [Mount (Some 0), CallEnsureGraph 0] (start StartsRunning)) ! 0)))) = Fulfilled \<and>
   srcNodeRef (snd (snd (ensureGraph_complete (hook_options (mount (Some 0)))
     (cleanup (world (run [Mount (Some 0), CallEnsureGraph 0] (start StartsRunning)),
       refs (components (run [Mount (Some 0), CallEnsureGraph 0] (start StartsRunning)) ! 0)))))) = Some 1 \<and>
   length (eqNodesRef (snd (snd (ensureGraph_complete (hook_options (mount (Some 0)))
     (cleanup (world (run [Mount (Some 0), CallEnsureGraph 0] (start StartsRunning)),
       refs (components (run [Mount (Some 0), CallEnsureGraph 0] (start StartsRunning)) ! 0))))))) = 31 \<and>
   36 \<le> eqNodesRef (snd (snd (ensureGraph_complete (hook_options (mount (Some 0)))
     (cleanup (world (run [Mount (Some 0), CallEnsureGraph 0] (start StartsRunning)),
       refs (components (run [Mount (Some 0), CallEnsureGraph 0] (start StartsRunning)) ! 0)))))) ! 0"
proof -
  let ?s = "run [Mount (Some 0), CallEnsureGraph 0] (start StartsRunning)"
  let ?m = "refs (components ?s ! 0)"
  let ?r = "ensureGraph_complete (hook_options (mount (Some 0))) (cleanup (world ?s, ?m))"
  have i: "0 < length (components ?s)" and a: "audioRef ?m = Some 0"
    by (simp_all add: constructed_components)
  have r: "?r = (fst ?r, fst (snd ?r), snd (snd ?r))"
    by simp
  note T = unmount_keeps_context_and_binding [OF i]
  from T have "gainRef (snd (cleanup (world ?s, ?m))) = None"
    by simp
  moreover from T a constructed_world(1,2) r
  have after: "fst ?r = Fulfilled \<and> srcNodeRef (snd (snd ?r)) = Some 1 \<and>
      length (eqNodesRef (snd (snd ?r))) = 31 \<and>
      (\<forall>q \<in> set (eqNodesRef (snd (snd ?r))). length (heap (world ?s)) \<le> q)"
    by blast
  then have "eqNodesRef (snd (snd ?r)) ! 0 \<in> set (eqNodesRef (snd (snd ?r)))"
    by (intro nth_mem) simp
  with after have "length (heap (world ?s)) \<le> eqNodesRef (snd (snd ?r)) ! 0"
    by blast
  ultimately show ?thesis
    using i a constructed_world after by simp
qed

section \<open>Updates before the graph exists\<close>

text \<open>
  Each reactive update finds its node missing and leaves the store as it is; nothing in it
  can fail.
\<close>

lemma updates_without_node:
  "gainRef m = None \<Longrightarrow> effect_volume v (e, m) = e"
  "preGainRef m = None \<Longrightarrow> effect_preGain v (e, m) = e"
  "eqNodesRef m = [] \<Longrightarrow> effect_eqGains gs (e, m) = e"
  "analyserRef m = None \<Longrightarrow> effect_analyser n x (e, m) = e"
  by (simp_all add: effect_volume_def effect_preGain_def effect_eqGains_def effect_analyser_def)

lemma created_by_longer_heap:
  assumes "created_by opts (e1, m) (e', m')" "heap e1 = heap e @ zs"
  shows "created_by opts (e, m) (e', m')"
proof -
  have len: "length (heap e) \<le> length (heap e1)"
    by (simp add: assms(2))
  have old: "\<forall>n < length (heap e). heap e' ! n = heap e ! n"
    using assms by (auto simp: created_by_def nth_append)
  have le: "length (heap e1) \<le> g \<Longrightarrow> length (heap e) \<le> g" for g
    using len by simp
  show ?thesis
    using assms(1) old unfolding created_by_def prod.case
    by (auto split: option.splits if_splits intro: le)
qed

text \<open>
  A call that runs alone to its end creates every missing node with the values of the
  options it was called with: band gains missing from \<open>eqGains\<close> read as 0.
\<close>

lemma ensureGraph_complete_created:
  assumes ok: "env_ok e" "refs_ok e m" and el: "audioRef m = Some el"
    and run: "ensureGraph_complete opts (e, m) = (Fulfilled, e', m')"
  shows "created_by opts (e, m) (e', m')"
proof -
  from ensure_context_post [OF ok(1)] show ?thesis
  proof (elim disjE exE conjE)
    assume "ensure_context e = Inl ContextUnavailable"
    then show ?thesis
      using run el by (simp add: ensureGraph_complete_def ensureGraph_def)
  next
    fix ctx e1
    assume c: "ensure_context e = Inr (ctx, e1)" "env_ok e1" "GLOBAL_AUDIO_CTX e1 = Some ctx"
      and h: "case GLOBAL_AUDIO_CTX e of Some c \<Rightarrow> c = ctx \<and> e1 = e
              | None \<Rightarrow> heap e1 = heap e @ [AudioDestinationNode] \<and>
                  initial_state (host e) = Some (state ctx)"
    obtain zs where zs: "heap e1 = heap e @ zs"
      using h by (cases "GLOBAL_AUDIO_CTX e") auto
    then have r1: "refs_ok e1 m"
      using ok(2) by (auto intro: refs_ok_grows heap_grows)
    have "ensure_context e1 = Inr (ctx, e1)"
      by (simp add: ensure_context_def c(3))
    then have "ensureGraph opts (e1, m) = ensureGraph opts (e, m)"
      using c(1) el by (simp add: ensureGraph_def)
    then have "ensureGraph_complete opts (e1, m) = (Fulfilled, e', m')"
      using run by (simp add: ensureGraph_complete_def)
    from ensureGraph_complete_with_context [OF c(2) r1 c(3) el this]
    have "created_by opts (e1, m) (e', m')"
      by simp
    then show ?thesis
      using zs by (rule created_by_longer_heap)
  qed
qed

lemma gain_or_zero_missing: "length gs \<le> k \<Longrightarrow> gain_or_zero gs k = 0"
  by (simp add: gain_or_zero_def)

end
